theory Spec2Isabelle
  imports Complex_Main "HOL-Library.Multiset" "HOL-Library.Log_Nat"
begin

section \<open>Token economy of the V3 engine: loans and participants\<close>

text \<open>
  The Python classes \<^verbatim>\<open>TokenLoan\<close> and \<^verbatim>\<open>Participant\<close> of
  \<^verbatim>\<open>cafe_elimination_v3.py\<close> (V4 imports and reuses both). Python integers are
  unbounded, so they are \<^typ>\<open>int\<close>. The interest rate of a loan is a Python float;
  in \<^verbatim>\<open>calculate_payment\<close> it is idealised as an exact rational, and
  \<^verbatim>\<open>int(x)\<close> on a float is truncation toward zero. The fields \<^verbatim>\<open>model\<close> and \<^verbatim>\<open>client\<close> of a participant
  are API handles and carry no engine state, so the record leaves them out.

  Loan objects are shared: \<^verbatim>\<open>offer_loan\<close> appends the same object to the lender's
  \<^verbatim>\<open>loans_issued\<close> and to the borrower's \<^verbatim>\<open>loans_owed\<close>. The lists
  therefore hold references (\<^typ>\<open>nat\<close>) into a store of loan objects.

  The Python exceptions that the modelled code can raise are values of \<open>py_error\<close>.
\<close>

datatype py_error = KeyError | IndexError | StopIteration | OverflowError | ValueError

type_synonym ref = nat

record TokenLoan =
  lender_name :: string
  borrower_name :: string
  principal :: int
  interest_rate :: rat
  duration :: int
  rounds_remaining :: int
  issued_round :: int

definition py_int :: "rat \<Rightarrow> int" where
  "py_int x = (if x < 0 then \<lceil>x\<rceil> else \<lfloor>x\<rfloor>)"

definition calculate_payment :: "TokenLoan \<Rightarrow> int" where
  "calculate_payment loan = py_int (of_int (principal loan) * (1 + interest_rate loan))"

record Participant =
  name :: string
  level :: int
  token_bank :: int
  loans_owed :: "ref list"
  loans_issued :: "ref list"
  eliminated :: bool
  elimination_round :: "int option"
  total_earned :: int
  total_spent :: int
  total_interest_earned :: int
  donations_given :: int
  donations_received :: int

definition new_Participant :: "string \<Rightarrow> Participant" where
  "new_Participant n =
     \<lparr> name = n, level = 0, token_bank = 1000, loans_owed = [], loans_issued = [],
       eliminated = False, elimination_round = None, total_earned = 1000,
       total_spent = 0, total_interest_earned = 0, donations_given = 0,
       donations_received = 0 \<rparr>"

text \<open>
  \<^verbatim>\<open>apply_interest\<close> computes \<^verbatim>\<open>int(self.token_bank * 0.05)\<close> in binary64
  floating point: Python converts the integer balance to a double (correctly rounded,
  \<^verbatim>\<open>OverflowError\<close> when the balance is too large for a double), multiplies by the
  double nearest to 0.05, which is \<open>3602879701896397 / 2 ^ 56\<close>, and truncates the
  product. A positive double is written as a pair \<open>(m, e)\<close> that stands for
  \<open>m * 2 ^ e\<close>. \<open>to_double N k\<close> rounds the positive number \<open>N * 2 ^ k\<close> to 53
  significant bits, to the nearest double and to the even one of two nearest, and is
  \<open>None\<close> when the rounded value reaches \<open>2 ^ 1024\<close>. (No value in the subnormal
  range occurs: a balance is at least 1 and the product at least 0.05.) A product
  that overflowed would be the infinite double, on which \<^verbatim>\<open>int\<close> raises
  \<^verbatim>\<open>OverflowError\<close> as well. The method returns the interest and updates the
  participant.
\<close>

definition round_half_even :: "int \<Rightarrow> nat \<Rightarrow> int" where
  "round_half_even N s =
     (let q = N div 2 ^ s; r = N mod 2 ^ s
      in if 2 * r < 2 ^ s then q
         else if 2 * r > 2 ^ s then q + 1
         else if even q then q else q + 1)"

definition to_double :: "int \<Rightarrow> int \<Rightarrow> (int \<times> int) option" where
  "to_double N k =
     (let s = nat (bitlen N - 53); m = round_half_even N s; e = k + int s
      in if bitlen m + e > 1024 then None else Some (m, e))"

definition int_of_double :: "int \<times> int \<Rightarrow> int" where
  "int_of_double d =
     (case d of (m, e) \<Rightarrow> if e \<ge> 0 then m * 2 ^ nat e else m div 2 ^ nat (- e))"

definition apply_interest :: "Participant \<Rightarrow> py_error + int \<times> Participant" where
  "apply_interest p =
     (if token_bank p > 0
      then (case to_double (token_bank p) 0 of
              None \<Rightarrow> Inl OverflowError
            | Some (m, e) \<Rightarrow>
                (case to_double (m * 3602879701896397) (e - 56) of
                   None \<Rightarrow> Inl OverflowError
                 | Some product \<Rightarrow>
                     (let interest = int_of_double product
                      in Inr (interest,
                              p\<lparr>token_bank := token_bank p + interest,
                                total_interest_earned := total_interest_earned p + interest\<rparr>))))
      else Inr (0, p))"

text \<open>
  \<^verbatim>\<open>earn_tokens\<close> returns a log line that no caller reads; the model returns the
  updated participant. The \<^verbatim>\<open>reason\<close> arguments of \<^verbatim>\<open>earn_tokens\<close> and
  \<^verbatim>\<open>spend_tokens\<close> only feed that text.
\<close>

definition earn_tokens :: "Participant \<Rightarrow> int \<Rightarrow> Participant" where
  "earn_tokens p amount =
     p\<lparr>token_bank := token_bank p + amount, total_earned := total_earned p + amount\<rparr>"

definition spend_tokens :: "Participant \<Rightarrow> int \<Rightarrow> bool \<times> Participant" where
  "spend_tokens p amount =
     (if token_bank p \<ge> amount
      then (True, p\<lparr>token_bank := token_bank p - amount,
                     total_spent := total_spent p + amount\<rparr>)
      else (False, p))"

definition boost_self :: "Participant \<Rightarrow> bool \<times> Participant" where
  "boost_self p =
     (if eliminated p then (False, p)
      else (let (ok, p') = spend_tokens p 1000
            in if ok then (True, p'\<lparr>level := min (level p' + 2) 3\<rparr>)
               else (False, p')))"


subsection \<open>Operations over two objects: the object store\<close>

text \<open>
  \<^verbatim>\<open>donate_to\<close>, \<^verbatim>\<open>offer_loan\<close> and \<^verbatim>\<open>process_loan_payments\<close>
  mutate several objects at once. The store holds every \<^verbatim>\<open>Participant\<close> object
  under the key the engine's \<^verbatim>\<open>participants\<close> dictionary gives it, and every
  \<^verbatim>\<open>TokenLoan\<close> object under its reference; \<open>next_ref\<close> is the reference the
  next created loan receives. The updates are applied one after the other in the
  order of the source's statements, so a lender who is also the borrower is handled
  as Python handles two names for one object.
\<close>

record store =
  objs :: "string \<Rightarrow> Participant"
  loan_objs :: "ref \<Rightarrow> TokenLoan"
  next_ref :: ref

definition upd_obj :: "string \<Rightarrow> (Participant \<Rightarrow> Participant) \<Rightarrow> store \<Rightarrow> store" where
  "upd_obj n f s = s\<lparr>objs := (objs s)(n := f (objs s n))\<rparr>"

definition upd_loan :: "ref \<Rightarrow> (TokenLoan \<Rightarrow> TokenLoan) \<Rightarrow> store \<Rightarrow> store" where
  "upd_loan r f s = s\<lparr>loan_objs := (loan_objs s)(r := f (loan_objs s r))\<rparr>"

definition donate_to :: "store \<Rightarrow> string \<Rightarrow> string \<Rightarrow> int \<Rightarrow> bool \<times> store" where
  "donate_to s self target amount =
     (let (ok, p') = spend_tokens (objs s self) amount
      in if ok
         then (let s1 = upd_obj self (\<lambda>_. p') s;
                   s2 = upd_obj target (\<lambda>t. earn_tokens t amount) s1;
                   s3 = upd_obj self (\<lambda>p. p\<lparr>donations_given := donations_given p + amount\<rparr>) s2;
                   s4 = upd_obj target
                          (\<lambda>t. t\<lparr>donations_received := donations_received t + amount\<rparr>) s3
               in (True, s4))
         else (False, s))"

definition new_TokenLoan :: "string \<Rightarrow> string \<Rightarrow> int \<Rightarrow> rat \<Rightarrow> int \<Rightarrow> TokenLoan" where
  "new_TokenLoan lender borrower amount rate dur =
     \<lparr> lender_name = lender, borrower_name = borrower, principal = amount,
       interest_rate = rate, duration = dur, rounds_remaining = dur, issued_round = 0 \<rparr>"

definition offer_loan ::
  "store \<Rightarrow> string \<Rightarrow> string \<Rightarrow> int \<Rightarrow> rat \<Rightarrow> int \<Rightarrow> ref option \<times> store" where
  "offer_loan s self borrower amount rate dur =
     (if token_bank (objs s self) \<ge> amount
      then (let r = next_ref s;
                loan = new_TokenLoan (name (objs s self)) (name (objs s borrower)) amount rate dur;
                s0 = s\<lparr>loan_objs := (loan_objs s)(r := loan), next_ref := Suc r\<rparr>;
                s1 = upd_obj self (\<lambda>p. p\<lparr>token_bank := token_bank p - amount\<rparr>) s0;
                s2 = upd_obj borrower (\<lambda>b. b\<lparr>token_bank := token_bank b + amount\<rparr>) s1;
                s3 = upd_obj self (\<lambda>p. p\<lparr>loans_issued := loans_issued p @ [r]\<rparr>) s2;
                s4 = upd_obj borrower (\<lambda>b. b\<lparr>loans_owed := loans_owed b @ [r]\<rparr>) s3
            in (Some r, s4))
      else (None, s))"

text \<open>
  \<^verbatim>\<open>process_loan_payments\<close> returns log lines; the model returns one event for each.
  The loop runs over the borrower's \<^verbatim>\<open>loans_owed\<close>, which it does not change;
  the matured loans are collected in \<^verbatim>\<open>loans_to_remove\<close> and taken out of the
  list afterwards, each with \<^verbatim>\<open>list.remove\<close> (the first occurrence).
\<close>

datatype loan_event =
  Repaid string int string
| Defaulted string string int

type_synonym loan_acc = "store \<times> loan_event list \<times> ref list"

definition loan_step :: "string \<Rightarrow> ref \<Rightarrow> loan_acc \<Rightarrow> loan_acc" where
  "loan_step self r acc =
     (case acc of (s, results, loans_to_remove) \<Rightarrow>
        (let s1 = upd_loan r (\<lambda>l. l\<lparr>rounds_remaining := rounds_remaining l - 1\<rparr>) s;
             loan = loan_objs s1 r
         in if rounds_remaining loan = 0
            then (let payment = calculate_payment loan
                  in if token_bank (objs s1 self) \<ge> payment
                     then (upd_obj self (\<lambda>p. p\<lparr>token_bank := token_bank p - payment\<rparr>) s1,
                           results @ [Repaid (name (objs s1 self)) payment (lender_name loan)],
                           loans_to_remove @ [r])
                     else (s1,
                           results @ [Defaulted (name (objs s1 self)) (lender_name loan) payment],
                           loans_to_remove @ [r]))
            else (s1, results, loans_to_remove)))"

definition process_loan_payments :: "store \<Rightarrow> string \<Rightarrow> loan_event list \<times> store" where
  "process_loan_payments s self =
     (case fold (loan_step self) (loans_owed (objs s self)) (s, [], []) of
        (s1, results, loans_to_remove) \<Rightarrow>
          (results,
           fold (\<lambda>r. upd_obj self (\<lambda>p. p\<lparr>loans_owed := remove1 r (loans_owed p)\<rparr>))
                loans_to_remove s1))"


section \<open>The V3 engine\<close>

text \<open>
  \<^verbatim>\<open>EliminationEngineV3\<close> always holds the same four participants; its dictionary
  enumerates them in the order of insertion, which is also the order of the name
  list \<^verbatim>\<open>run_round\<close> iterates over. \<^verbatim>\<open>PERFORMANCE_LEVELS\<close> is a dictionary
  with the keys -5 .. 3; of each entry the model keeps \<^verbatim>\<open>max_tokens\<close>. A lookup
  of another level raises \<^verbatim>\<open>KeyError\<close>.
\<close>

definition roster :: "string list" where
  "roster = [''Grok'', ''Claude'', ''DeepSeek'', ''ChatGPT'']"

definition PERFORMANCE_LEVELS :: "int \<rightharpoonup> nat" where
  "PERFORMANCE_LEVELS =
     [-5 \<mapsto> 75, -4 \<mapsto> 100, -3 \<mapsto> 150, -2 \<mapsto> 250, -1 \<mapsto> 500,
      0 \<mapsto> 1000, 1 \<mapsto> 1500, 2 \<mapsto> 2000, 3 \<mapsto> 2500]"

definition get_config :: "Participant \<Rightarrow> py_error + nat" where
  "get_config p =
     (case PERFORMANCE_LEVELS (level p) of None \<Rightarrow> Inl KeyError | Some c \<Rightarrow> Inr c)"

record EngineV3 =
  heap :: store
  challenge_round :: nat
  current_round :: int

definition new_EngineV3 :: EngineV3 where
  "new_EngineV3 =
     \<lparr> heap = \<lparr> objs = new_Participant, loan_objs = (\<lambda>_. new_TokenLoan [] [] 0 0 0),
                next_ref = 0 \<rparr>,
       challenge_round = 0, current_round = 0 \<rparr>"

text \<open>
  \<^verbatim>\<open>ChallengeEngine.get_challenge\<close> cycles through a list of 20 texts; the model
  returns the index of the text and the new counter.
\<close>

definition get_challenge :: "nat \<Rightarrow> nat \<times> nat" where
  "get_challenge cr = (let c = (if cr \<ge> 20 then 0 else cr) in (c, c + 1))"

text \<open>
  The judge is an external model. Its reply either makes the \<^verbatim>\<open>try\<close> block raise
  (the call fails, the text is not JSON, a key is missing), or yields the values under
  \<^verbatim>\<open>"best"\<close> and \<^verbatim>\<open>"worst"\<close>; \<open>None\<close> stands for a JSON null. The filter
  at the start of \<^verbatim>\<open>judge_responses\<close> looks every responder up in
  \<^verbatim>\<open>self.participants\<close>, outside the \<^verbatim>\<open>try\<close> block: a responder that is not a
  participant raises \<^verbatim>\<open>KeyError\<close>.
\<close>

datatype judge_reply = JudgeRaises | JudgeSays "string option" "string option"

definition judge_responses ::
  "store \<Rightarrow> judge_reply \<Rightarrow> (string \<times> string) list
     \<Rightarrow> py_error + string option \<times> string option" where
  "judge_responses s reply responses =
     (if \<not> list_all (\<lambda>(n, resp). n \<in> set roster) responses then Inl KeyError
      else (let valid_responses = filter (\<lambda>(n, resp). \<not> eliminated (objs s n)) responses
            in if length valid_responses < 2
               then Inr ((case valid_responses of [] \<Rightarrow> None | (n, resp) # rest \<Rightarrow> Some n),
                         None)
               else (case reply of
                       JudgeSays b w \<Rightarrow> Inr (b, w)
                     | JudgeRaises \<Rightarrow>
                         (let names = map fst valid_responses
                          in Inr (Some (hd names), Some (last names))))))"

definition apply_interest_to_all :: "store \<Rightarrow> py_error + (string \<times> int) list \<times> store" where
  "apply_interest_to_all s =
     fold (\<lambda>n acc.
             case acc of
               Inl err \<Rightarrow> Inl err
             | Inr (results, s) \<Rightarrow>
                 if \<not> eliminated (objs s n)
                 then (case apply_interest (objs s n) of
                         Inl err \<Rightarrow> Inl err
                       | Inr (interest, p') \<Rightarrow>
                           Inr (results @ [(n, interest)], upd_obj n (\<lambda>_. p') s))
                 else Inr (results, s))
          roster (Inr ([], s))"

definition check_group_survival_bonus :: "store \<Rightarrow> bool \<times> store" where
  "check_group_survival_bonus s =
     (let all_alive = list_all (\<lambda>n. \<not> eliminated (objs s n)) roster
      in if all_alive
         then (True, fold (\<lambda>n. upd_obj n (\<lambda>p. earn_tokens p 300)) roster s)
         else (False, s))"

definition process_all_loans :: "store \<Rightarrow> loan_event list \<times> store" where
  "process_all_loans s =
     fold (\<lambda>n (all_results, s).
             if \<not> eliminated (objs s n)
             then (let (results, s') = process_loan_payments s n
                   in (all_results @ results, s'))
             else (all_results, s))
          roster ([], s)"

definition check_eliminations :: "int \<Rightarrow> store \<Rightarrow> store" where
  "check_eliminations rnd s =
     fold (\<lambda>n s. if \<not> eliminated (objs s n) \<and> level (objs s n) \<le> -6
                  then upd_obj n (\<lambda>p. p\<lparr>eliminated := True, elimination_round := Some rnd\<rparr>) s
                  else s)
          roster s"

text \<open>
  The block of \<^verbatim>\<open>run_round\<close> that applies the judgement (promote the best, demote
  the worst). Both dictionary lookups come first and raise \<^verbatim>\<open>KeyError\<close> for a name
  the judge invented; the two log lines look the new levels up in
  \<^verbatim>\<open>PERFORMANCE_LEVELS\<close>.
\<close>

definition apply_performance_changes :: "store \<Rightarrow> string \<Rightarrow> string \<Rightarrow> py_error + store" where
  "apply_performance_changes s best worst =
     (if best \<notin> set roster \<or> worst \<notin> set roster then Inl KeyError
      else (let s1 = upd_obj best (\<lambda>p. p\<lparr>level := min (level p + 1) 3\<rparr>) s;
                s2 = upd_obj best (\<lambda>p. earn_tokens p 500) s1
            in case get_config (objs s2 best) of
                 Inl err \<Rightarrow> Inl err
               | Inr c \<Rightarrow>
                   (let s3 = upd_obj worst (\<lambda>p. p\<lparr>level := max (level p - 1) (-6)\<rparr>) s2
                    in if level (objs s3 worst) \<ge> -5
                       then (case get_config (objs s3 worst) of
                               Inl err \<Rightarrow> Inl err
                             | Inr c' \<Rightarrow> Inr s3)
                       else Inr s3)))"

definition survival_bonus :: "store \<Rightarrow> store" where
  "survival_bonus s =
     fold (\<lambda>n s. if \<not> eliminated (objs s n) then upd_obj n (\<lambda>p. earn_tokens p 100) s else s)
          roster s"

text \<open>
  The steps of \<^verbatim>\<open>run_round\<close> after the judgement was applied: the survival bonus,
  the group bonus and the elimination check.
\<close>

definition end_of_round :: "int \<Rightarrow> store \<Rightarrow> store" where
  "end_of_round rnd s =
     (let s5 = survival_bonus s;
          (fired, s6) = check_group_survival_bonus s5
      in check_eliminations rnd s6)"

text \<open>
  \<^verbatim>\<open>run_round\<close>. \<open>api n\<close> is the text the generation call returns for participant
  \<open>n\<close> (an error text when the call fails). The round counter is incremented first;
  \<open>rnd\<close> is its new value. The status display at the start looks up the level of
  every participant, eliminated or not.
\<close>

definition run_round ::
  "EngineV3 \<Rightarrow> (string \<Rightarrow> string) \<Rightarrow> judge_reply \<Rightarrow> py_error + EngineV3" where
  "run_round e api reply =
     (let rnd = current_round e + 1
      in if list_ex (\<lambda>n. get_config (objs (heap e) n) = Inl KeyError) roster
         then Inl KeyError
         else (case apply_interest_to_all (heap e) of
                 Inl err \<Rightarrow> Inl err
               | Inr (interest_results, s2) \<Rightarrow>
                   (let (loan_results, s3) = process_all_loans s2;
                        (challenge, cr) = get_challenge (challenge_round e);
                        responses = map (\<lambda>n. (n, api n))
                                        (filter (\<lambda>n. \<not> eliminated (objs s3 n)) roster);
                        judged =
                          (if length responses \<ge> 2
                           then (case judge_responses s3 reply responses of
                                   Inl err \<Rightarrow> Inl err
                                 | Inr (Some best, Some worst) \<Rightarrow>
                                      if best \<noteq> [] \<and> worst \<noteq> []
                                      then apply_performance_changes s3 best worst
                                      else Inr s3
                                 | Inr other \<Rightarrow> Inr s3)
                           else Inr s3)
                    in case judged of
                         Inl err \<Rightarrow> Inl err
                       | Inr s4 \<Rightarrow>
                           Inr (e\<lparr>current_round := rnd, heap := end_of_round rnd s4,
                                  challenge_round := cr\<rparr>))))"

section \<open>The V4 engine\<close>

text \<open>
  \<^verbatim>\<open>cafe_elimination_v4.py\<close> imports \<^verbatim>\<open>Participant\<close> from V3 (its
  \<^verbatim>\<open>EducatedParticipant\<close> adds nothing) and its engine has the fields of the V3
  engine, so the engine state is the record \<open>EngineV3\<close>. Its methods
  \<^verbatim>\<open>apply_interest_to_all\<close>, \<^verbatim>\<open>check_group_survival_bonus\<close> and
  \<^verbatim>\<open>check_eliminations\<close> repeat the V3 text. A V4 round processes no loans; while
  it collects the responses it carries out the cooperation actions that each
  participant announces on the first line of its answer.

  That first line is free text. \<^verbatim>\<open>parse_cooperation_actions\<close> reads two things from
  it, and the model takes them as given: whether the line names a self-rescue, and what
  the first of the three donation patterns that matches has captured. The amount is
  captured by a pattern of digits only, so \<^verbatim>\<open>int\<close> turns it into a natural
  number, unless the digit string is longer than the interpreter's limit for the
  conversion, where \<^verbatim>\<open>int\<close> raises \<^verbatim>\<open>ValueError\<close>. The target is the
  captured word as the method has normalised it. The self-rescue is carried out before
  the donation is read. The log lines the method returns are left out.
\<close>

datatype donation_match = NoDonation | Donation nat string | DonationTooLong

record cooperation =
  self_rescue :: bool
  donation :: donation_match

definition parse_cooperation_actions ::
  "store \<Rightarrow> string \<Rightarrow> cooperation \<Rightarrow> py_error + store" where
  "parse_cooperation_actions s participant strategy =
     (let s1 = (if self_rescue strategy
                then upd_obj participant (\<lambda>p. snd (boost_self p)) s
                else s)
      in case donation strategy of
           NoDonation \<Rightarrow> Inr s1
         | DonationTooLong \<Rightarrow> Inl ValueError
         | Donation amount target_name \<Rightarrow>
             if target_name \<in> set roster
             then (if \<not> eliminated (objs s1 target_name)
                   then Inr (snd (donate_to s1 participant target_name (int amount)))
                   else Inr s1)
             else Inr s1)"

text \<open>
  The loop of \<^verbatim>\<open>run_round\<close> that collects the responses; \<open>collect_step\<close> is
  its body, and an exception ends the loop. \<open>api n\<close> is the answer
  of participant \<open>n\<close>: the response text, and what the strategy line holds when
  \<^verbatim>\<open>parse_cooperation_actions\<close> is called for it (\<open>None\<close> when the call failed, or
  the line is empty or holds an error text). \<^verbatim>\<open>get_response\<close> looks the level up
  in \<^verbatim>\<open>PERFORMANCE_LEVELS\<close> before the call.
\<close>

type_synonym collect_acc = "py_error + (string \<times> string) list \<times> store"

definition collect_step ::
  "(string \<Rightarrow> string \<times> cooperation option) \<Rightarrow> string \<Rightarrow> collect_acc \<Rightarrow> collect_acc" where
  "collect_step api n acc =
     (case acc of
        Inl err \<Rightarrow> Inl err
      | Inr (responses, s) \<Rightarrow>
          if eliminated (objs s n) then Inr (responses, s)
          else (case get_config (objs s n) of
                  Inl err \<Rightarrow> Inl err
                | Inr config \<Rightarrow>
                    (case api n of
                       (response, None) \<Rightarrow> Inr (responses @ [(n, response)], s)
                     | (response, Some strategy) \<Rightarrow>
                         (case parse_cooperation_actions s n strategy of
                            Inl err \<Rightarrow> Inl err
                          | Inr s' \<Rightarrow> Inr (responses @ [(n, response)], s')))))"

definition collect_responses ::
  "(string \<Rightarrow> string \<times> cooperation option) \<Rightarrow> store \<Rightarrow> collect_acc" where
  "collect_responses api s = fold (collect_step api) roster (Inr ([], s))"

text \<open>
  \<^verbatim>\<open>judge_responses\<close> of V4 reads the reply with \<^verbatim>\<open>result.get\<close> (a missing key
  is \<open>None\<close>) and its fallback returns
  \<^verbatim>\<open>names[0], names[-1] if len(names) > 1 else names[0]\<close>.
\<close>

definition judge_responses_V4 ::
  "store \<Rightarrow> judge_reply \<Rightarrow> (string \<times> string) list
     \<Rightarrow> py_error + string option \<times> string option" where
  "judge_responses_V4 s reply responses =
     (if \<not> list_all (\<lambda>(n, resp). n \<in> set roster) responses then Inl KeyError
      else (let valid_responses = filter (\<lambda>(n, resp). \<not> eliminated (objs s n)) responses
            in if length valid_responses < 2
               then Inr ((case valid_responses of [] \<Rightarrow> None | (n, resp) # rest \<Rightarrow> Some n),
                         None)
               else (case reply of
                       JudgeSays b w \<Rightarrow> Inr (b, w)
                     | JudgeRaises \<Rightarrow>
                         (let names = map fst valid_responses
                          in Inr (Some (hd names),
                                  Some (if length names > 1 then last names else hd names))))))"

text \<open>The level block of the V4 round; its log lines do not read the level table.\<close>

definition apply_performance_changes_V4 :: "store \<Rightarrow> string \<Rightarrow> string \<Rightarrow> py_error + store" where
  "apply_performance_changes_V4 s best worst =
     (if best \<notin> set roster \<or> worst \<notin> set roster then Inl KeyError
      else (let s1 = upd_obj best (\<lambda>p. p\<lparr>level := min (level p + 1) 3\<rparr>) s;
                s2 = upd_obj best (\<lambda>p. earn_tokens p 500) s1
            in Inr (upd_obj worst (\<lambda>p. p\<lparr>level := max (level p - 1) (-6)\<rparr>) s2)))"

definition run_round_V4 ::
  "EngineV3 \<Rightarrow> (string \<Rightarrow> string \<times> cooperation option) \<Rightarrow> judge_reply
     \<Rightarrow> py_error + EngineV3" where
  "run_round_V4 e api reply =
     (let rnd = current_round e + 1
      in if list_ex (\<lambda>n. get_config (objs (heap e) n) = Inl KeyError) roster
         then Inl KeyError
         else (case apply_interest_to_all (heap e) of
                 Inl err \<Rightarrow> Inl err
               | Inr (interest_results, s2) \<Rightarrow>
                   (let (challenge, cr) = get_challenge (challenge_round e)
                    in case collect_responses api s2 of
                         Inl err \<Rightarrow> Inl err
                       | Inr (responses, s3) \<Rightarrow>
                           (let judged =
                                  (if length responses \<ge> 2
                                   then (case judge_responses_V4 s3 reply responses of
                                           Inl err \<Rightarrow> Inl err
                                         | Inr (Some best, Some worst) \<Rightarrow>
                                              if best \<noteq> [] \<and> worst \<noteq> []
                                              then apply_performance_changes_V4 s3 best worst
                                              else Inr s3
                                         | Inr other \<Rightarrow> Inr s3)
                                   else Inr s3)
                            in case judged of
                                 Inl err \<Rightarrow> Inl err
                               | Inr s4 \<Rightarrow>
                                   Inr (e\<lparr>current_round := rnd, heap := end_of_round rnd s4,
                                          challenge_round := cr\<rparr>)))))"

section \<open>The V5 engine\<close>

text \<open>
  \<^verbatim>\<open>cafe_elimination_v5_standalone.py\<close>. The class \<^verbatim>\<open>AI\<close> has fields that share
  their names with \<^verbatim>\<open>Participant\<close>; they carry the prefix \<open>ai_\<close> here. The
  engine's dictionary \<^verbatim>\<open>self.ais\<close> is an association list in insertion order: a
  loop over \<^verbatim>\<open>self.ais.items()\<close> or \<^verbatim>\<open>self.ais.values()\<close> that mutates each
  object is a \<open>map\<close> over it, and \<^verbatim>\<open>self.ais[k]\<close> addresses the entry with key
  \<open>k\<close>.
\<close>

record AI =
  ai_name :: string
  api_type :: string
  ai_token_bank :: int
  ai_level :: int
  alive :: bool
  eliminated_round :: "int option"
  is_traitor :: bool
  traitor_revealed :: bool
  has_v4_memory :: bool
  sabotage_tokens :: int
  reputation_score :: int

definition new_AI :: "string \<Rightarrow> string \<Rightarrow> bool \<Rightarrow> bool \<Rightarrow> AI" where
  "new_AI n t traitor memory =
     \<lparr> ai_name = n, api_type = t, ai_token_bank = 10000, ai_level = 0, alive = True,
       eliminated_round = None, is_traitor = traitor, traitor_revealed = False,
       has_v4_memory = memory, sabotage_tokens = 3, reputation_score = 0 \<rparr>"

record EngineV5 =
  ais :: "(string \<times> AI) list"
  traitor_name :: string

fun upd_ai :: "string \<Rightarrow> (AI \<Rightarrow> AI) \<Rightarrow> (string \<times> AI) list \<Rightarrow> (string \<times> AI) list" where
  "upd_ai k f [] = []"
| "upd_ai k f ((n, a) # rest) = (if n = k then (n, f a) # rest else (n, a) # upd_ai k f rest)"

text \<open>
  \<^verbatim>\<open>random.shuffle\<close> is the standard library's Fisher-Yates loop
  \<^verbatim>\<open>for i in reversed(range(1, len(x))): j = randbelow(i + 1); x[i], x[j] = x[j], x[i]\<close>.
  The random source is an explicit argument: \<open>rand i\<close> is the draw made at index
  \<open>i\<close>, reduced to the range \<^verbatim>\<open>randbelow(i + 1)\<close> draws from.
\<close>

fun shuffle_from :: "nat \<Rightarrow> (nat \<Rightarrow> nat) \<Rightarrow> 'a list \<Rightarrow> 'a list" where
  "shuffle_from 0 rand xs = xs"
| "shuffle_from (Suc i) rand xs =
     (let j = rand (Suc i) mod (Suc i + 1)
      in shuffle_from i rand (xs[Suc i := xs ! j, j := xs ! Suc i]))"

definition shuffle :: "(nat \<Rightarrow> nat) \<Rightarrow> 'a list \<Rightarrow> 'a list" where
  "shuffle rand xs = shuffle_from (length xs - 1) rand xs"

text \<open>
  \<^verbatim>\<open>_judge_responses\<close>: the judge is the first alive AI (\<^verbatim>\<open>next\<close> on an empty
  generator raises \<^verbatim>\<open>StopIteration\<close>). Its reply either parses into a JSON list of
  names, or the method falls through to the fallback, which shuffles the names of the
  responders.
\<close>

datatype ranking_reply = RankingParsed "string list" | RankingUnusable

definition judge_responses_V5 ::
  "EngineV5 \<Rightarrow> ranking_reply \<Rightarrow> (nat \<Rightarrow> nat) \<Rightarrow> (string \<times> string) list
     \<Rightarrow> py_error + string list" where
  "judge_responses_V5 e reply rand responses =
     (if \<not> list_ex (\<lambda>(n, a). alive a) (ais e) then Inl StopIteration
      else (case reply of
              RankingParsed ranking \<Rightarrow> Inr ranking
            | RankingUnusable \<Rightarrow> Inr (shuffle rand (map fst responses))))"

text \<open>
  \<^verbatim>\<open>_apply_round_results\<close> in its three blocks: level changes, group bonus,
  eliminations. Its \<^verbatim>\<open>costs\<close> argument is not read.
\<close>

definition group_bonus_V5 :: "(string \<times> AI) list \<Rightarrow> (string \<times> AI) list" where
  "group_bonus_V5 xs =
     (if list_all (\<lambda>(n, a). alive a) xs
      then map (\<lambda>(n, a). (n, a\<lparr>ai_token_bank := ai_token_bank a + 3000\<rparr>)) xs
      else xs)"

definition check_eliminations_V5 :: "int \<Rightarrow> (string \<times> AI) list \<Rightarrow> (string \<times> AI) list" where
  "check_eliminations_V5 round_num xs =
     map (\<lambda>(n, a). if alive a \<and> ai_token_bank a \<le> 0
                   then (n, a\<lparr>alive := False, eliminated_round := Some round_num\<rparr>)
                   else (n, a)) xs"

definition apply_round_results :: "EngineV5 \<Rightarrow> int \<Rightarrow> string list \<Rightarrow> py_error + EngineV5" where
  "apply_round_results e round_num rankings =
     (if rankings = [] then Inl IndexError
      else (let best = hd rankings; worst = last rankings
            in if best \<notin> set (map fst (ais e)) \<or> worst \<notin> set (map fst (ais e))
               then Inl KeyError
               else (let a1 = upd_ai best (\<lambda>a. a\<lparr>ai_level := ai_level a + 1\<rparr>) (ais e);
                         a2 = upd_ai worst (\<lambda>a. a\<lparr>ai_level := ai_level a - 1\<rparr>) a1;
                         a3 = upd_ai best (\<lambda>a. a\<lparr>reputation_score := reputation_score a + 2\<rparr>) a2
                     in Inr (e\<lparr>ais := check_eliminations_V5 round_num (group_bonus_V5 a3)\<rparr>))))"

text \<open>
  \<^verbatim>\<open>run_challenge_round\<close>. \<open>api n\<close> is what \<^verbatim>\<open>_call_api\<close> returns for the AI
  \<open>n\<close>: the text and the number of tokens the call used, which is debited at once.
\<close>

definition run_challenge_round ::
  "EngineV5 \<Rightarrow> int \<Rightarrow> (string \<Rightarrow> string \<times> int) \<Rightarrow> ranking_reply \<Rightarrow> (nat \<Rightarrow> nat)
     \<Rightarrow> py_error + string list \<times> EngineV5" where
  "run_challenge_round e round_num api reply rand =
     (let responses = map (\<lambda>(n, a). (n, fst (api n))) (filter (\<lambda>(n, a). alive a) (ais e));
          e1 = e\<lparr>ais := map (\<lambda>(n, a). if alive a
                                       then (n, a\<lparr>ai_token_bank := ai_token_bank a - snd (api n)\<rparr>)
                                       else (n, a)) (ais e)\<rparr>
      in case judge_responses_V5 e1 reply rand responses of
           Inl err \<Rightarrow> Inl err
         | Inr rankings \<Rightarrow>
             (case apply_round_results e1 round_num rankings of
                Inl err \<Rightarrow> Inl err
              | Inr e2 \<Rightarrow> Inr (rankings, e2)))"


section \<open>Example states\<close>

text \<open>A V5 engine with two participants, as \<^verbatim>\<open>AI.__init__\<close> creates them.\<close>

definition duo_V5 :: EngineV5 where
  "duo_V5 = \<lparr> ais = [(''Claude'', new_AI ''Claude'' ''anthropic'' False False),
                       (''Grok'', new_AI ''Grok'' ''xai'' True True)],
               traitor_name = ''Grok'' \<rparr>"

text \<open>The initial V3 store with one participant at the elimination threshold.\<close>

definition grok_at_threshold :: store where
  "grok_at_threshold = upd_obj ''Grok'' (\<lambda>p. p\<lparr>level := -6\<rparr>) (heap new_EngineV3)"

text \<open>A V5 engine whose participants stand at the levels 3 and -6.\<close>

definition peak_V5 :: EngineV5 where
  "peak_V5 = \<lparr> ais = [(''Claude'', (new_AI ''Claude'' ''anthropic'' False False)\<lparr>ai_level := 3\<rparr>),
                        (''Grok'', (new_AI ''Grok'' ''xai'' True True)\<lparr>ai_level := -6\<rparr>)],
                traitor_name = ''Grok'' \<rparr>"

text \<open>A random source that returns the same draw at every index, and two responses.\<close>

definition const_draw :: "nat \<Rightarrow> nat \<Rightarrow> nat" where
  "const_draw k i = k"

definition duo_responses :: "(string \<times> string) list" where
  "duo_responses = [(''Claude'', ''first answer''), (''Grok'', ''second answer'')]"

text \<open>The store after the elimination check of round 7 has eliminated that participant.\<close>

definition grok_eliminated :: store where
  "grok_eliminated = check_eliminations 7 grok_at_threshold"

text \<open>
  The tokens a list of loan events reports as repaid, and the store after Claude has
  lent Grok 500 tokens at 20% interest for one round.
\<close>

fun repaid_total :: "loan_event list \<Rightarrow> int" where
  "repaid_total [] = 0"
| "repaid_total (Repaid b payment l # es) = payment + repaid_total es"
| "repaid_total (Defaulted b l payment # es) = repaid_total es"

definition loan_state :: store where
  "loan_state = snd (offer_loan (heap new_EngineV3) ''Claude'' ''Grok'' 500 (1 / 5) 1)"

text \<open>
  Collaborators for the examples: a generation call that always answers, a V5 call that
  always costs 500 tokens, and a V5 engine in which one AI is short of tokens and one
  was eliminated in round 3.
\<close>

definition fixed_api :: "string \<Rightarrow> string" where
  "fixed_api n = ''answer''"

definition paid_api :: "string \<Rightarrow> string \<times> int" where
  "paid_api n = (''answer'', 500)"

definition trio_V5 :: EngineV5 where
  "trio_V5 =
     \<lparr> ais = [(''Claude'', (new_AI ''Claude'' ''anthropic'' False False)\<lparr>ai_token_bank := 100\<rparr>),
              (''Grok'', (new_AI ''Grok'' ''xai'' True True)\<lparr>ai_token_bank := 5000\<rparr>),
              (''DeepSeek'', (new_AI ''DeepSeek'' ''deepseek'' False False)
                  \<lparr>ai_token_bank := 0, alive := False, eliminated_round := Some 3\<rparr>)],
       traitor_name = ''Grok'' \<rparr>"

text \<open>Two responses, one of them under a name that is not in the roster.\<close>

definition stranger_responses :: "(string \<times> string) list" where
  "stranger_responses = [(''Gemini'', ''first answer''), (''Grok'', ''second answer'')]"

text \<open>
  Answers of a V4 round in which Grok announces a self-rescue, Claude a donation of 200
  tokens to Grok, and the others no action.
\<close>

definition coop_api :: "string \<Rightarrow> string \<times> cooperation option" where
  "coop_api n =
     (''answer'',
      if n = ''Grok'' then Some \<lparr> self_rescue = True, donation = NoDonation \<rparr>
      else if n = ''Claude''
           then Some \<lparr> self_rescue = False, donation = Donation 200 ''Grok'' \<rparr>
           else None)"

section \<open>Properties of the participant operations\<close>

text \<open>
  Claim C3. \<^verbatim>\<open>spend_tokens(p, amount)\<close> returns false and leaves the participant
  as it was (balance and total spent included) whenever the amount exceeds the balance;
  otherwise it returns true, takes exactly the amount off the balance and adds exactly
  the amount to the total spent, and changes no other field.
\<close>

theorem spend_tokens_semantics:
  "(amount > token_bank p \<longrightarrow>
      fst (spend_tokens p amount) = False \<and> snd (spend_tokens p amount) = p) \<and>
   (\<not> amount > token_bank p \<longrightarrow>
      fst (spend_tokens p amount) = True \<and>
      token_bank (snd (spend_tokens p amount)) = token_bank p - amount \<and>
      total_spent (snd (spend_tokens p amount)) = total_spent p + amount \<and>
      snd (spend_tokens p amount)\<lparr>token_bank := token_bank p, total_spent := total_spent p\<rparr> = p)"
  by (simp add: spend_tokens_def)

theorem spend_tokens_semantics_witness:
  "fst (spend_tokens (new_Participant ''Grok'') 400) = True \<and>
   token_bank (snd (spend_tokens (new_Participant ''Grok'') 400)) = 600 \<and>
   total_spent (snd (spend_tokens (new_Participant ''Grok'') 400)) = 400 \<and>
   fst (spend_tokens (new_Participant ''Grok'') 1001) = False \<and>
   snd (spend_tokens (new_Participant ''Grok'') 1001) = new_Participant ''Grok''"
  using spend_tokens_semantics [where amount = 400 and p = "new_Participant ''Grok''"]
        spend_tokens_semantics [where amount = 1001 and p = "new_Participant ''Grok''"]
  by (simp add: new_Participant_def)

text \<open>
  Claim C2. \<^verbatim>\<open>boost_self\<close> fails and changes nothing when the participant is
  eliminated or holds fewer than 1000 tokens. Otherwise it succeeds, debits exactly
  1000, sets the level to the old level plus 2 clamped at 3, and leaves a balance that
  is not negative. The level never changes without the debit.
\<close>

theorem boost_self_atomic:
  "(eliminated p \<or> token_bank p < 1000 \<longrightarrow> boost_self p = (False, p)) \<and>
   (\<not> eliminated p \<and> 1000 \<le> token_bank p \<longrightarrow>
      fst (boost_self p) \<and>
      token_bank (snd (boost_self p)) = token_bank p - 1000 \<and>
      total_spent (snd (boost_self p)) = total_spent p + 1000 \<and>
      level (snd (boost_self p)) = min (level p + 2) 3 \<and>
      0 \<le> token_bank (snd (boost_self p))) \<and>
   (level (snd (boost_self p)) \<noteq> level p \<longrightarrow>
      fst (boost_self p) \<and> token_bank (snd (boost_self p)) = token_bank p - 1000)"
  by (simp add: boost_self_def spend_tokens_def)

theorem boost_self_atomic_witness:
  "fst (boost_self ((new_Participant ''Grok'')\<lparr>level := -5\<rparr>)) \<and>
   token_bank (snd (boost_self ((new_Participant ''Grok'')\<lparr>level := -5\<rparr>))) = 0 \<and>
   level (snd (boost_self ((new_Participant ''Grok'')\<lparr>level := -5\<rparr>))) = -3 \<and>
   boost_self ((new_Participant ''Grok'')\<lparr>level := -5, token_bank := 900\<rparr>) =
     (False, (new_Participant ''Grok'')\<lparr>level := -5, token_bank := 900\<rparr>) \<and>
   boost_self ((new_Participant ''Grok'')\<lparr>eliminated := True\<rparr>) =
     (False, (new_Participant ''Grok'')\<lparr>eliminated := True\<rparr>)"
  using boost_self_atomic [of "(new_Participant ''Grok'')\<lparr>level := -5\<rparr>"]
        boost_self_atomic [of "(new_Participant ''Grok'')\<lparr>level := -5, token_bank := 900\<rparr>"]
        boost_self_atomic [of "(new_Participant ''Grok'')\<lparr>eliminated := True\<rparr>"]
  by (simp add: new_Participant_def)

section \<open>Loops over the roster\<close>

lemma upd_obj_simps [simp]:
  "objs (upd_obj n f s) = (objs s)(n := f (objs s n))"
  "loan_objs (upd_obj n f s) = loan_objs s"
  "next_ref (upd_obj n f s) = next_ref s"
  by (simp_all add: upd_obj_def)

lemma upd_obj_id: "f (objs s n) = objs s n \<Longrightarrow> upd_obj n f s = s"
  by (simp add: upd_obj_def)

lemma fold_upd_obj_objs:
  "distinct ks \<Longrightarrow>
   objs (fold (\<lambda>n. upd_obj n g) ks s) m = (if m \<in> set ks then g (objs s m) else objs s m)"
  by (induction ks arbitrary: s) auto

lemma fold_upd_obj_loans:
  "loan_objs (fold (\<lambda>n. upd_obj n g) ks s) = loan_objs s \<and>
   next_ref (fold (\<lambda>n. upd_obj n g) ks s) = next_ref s"
  by (induction ks arbitrary: s) auto

lemma distinct_roster: "distinct roster"
  by (simp add: roster_def)

lemma upd_ai_proj:
  "(\<And>a. h (f a) = h a) \<Longrightarrow> map (\<lambda>(n, a). h a) (upd_ai k f xs) = map (\<lambda>(n, a). h a) xs"
  by (induction xs) auto

section \<open>The group bonus\<close>

lemma all_alive_map:
  "list_all (\<lambda>(n, a). alive a) ys = list_all (\<lambda>b. b) (map (\<lambda>(n, a). alive a) ys)"
  by (induction ys) auto

lemma bank_plus_map:
  "map (\<lambda>(n, a). ai_token_bank a + c) ys = map (\<lambda>b. b + c) (map (\<lambda>(n, a). ai_token_bank a) ys)"
  by (induction ys) auto

lemma group_bonus_V5_bank:
  "map (\<lambda>(n, a). ai_token_bank a) (group_bonus_V5 ys) =
     (if list_all (\<lambda>(n, a). alive a) ys
      then map (\<lambda>(n, a). ai_token_bank a + 3000) ys
      else map (\<lambda>(n, a). ai_token_bank a) ys)"
  by (induction ys) (auto simp: group_bonus_V5_def)

lemma check_eliminations_V5_bank:
  "map (\<lambda>(n, a). ai_token_bank a) (check_eliminations_V5 r ys) = map (\<lambda>(n, a). ai_token_bank a) ys"
  by (induction ys) (auto simp: check_eliminations_V5_def)

lemma level_changes_V5_frame:
  assumes "a3 = upd_ai best (\<lambda>a. a\<lparr>reputation_score := reputation_score a + 2\<rparr>)
                  (upd_ai worst (\<lambda>a. a\<lparr>ai_level := ai_level a - 1\<rparr>)
                     (upd_ai best (\<lambda>a. a\<lparr>ai_level := ai_level a + 1\<rparr>) xs))"
  shows "map (\<lambda>(n, a). alive a) a3 = map (\<lambda>(n, a). alive a) xs"
    and "map (\<lambda>(n, a). ai_token_bank a) a3 = map (\<lambda>(n, a). ai_token_bank a) xs"
  by (simp_all add: assms upd_ai_proj)

lemma apply_round_results_bank:
  assumes "apply_round_results e r rk = Inr e'"
  shows "map (\<lambda>(n, a). ai_token_bank a) (ais e') =
        (if list_all (\<lambda>(n, a). alive a) (ais e)
         then map (\<lambda>(n, a). ai_token_bank a + 3000) (ais e)
         else map (\<lambda>(n, a). ai_token_bank a) (ais e))"
proof -
  define a3 where "a3 = upd_ai (hd rk) (\<lambda>a. a\<lparr>reputation_score := reputation_score a + 2\<rparr>)
                  (upd_ai (last rk) (\<lambda>a. a\<lparr>ai_level := ai_level a - 1\<rparr>)
                     (upd_ai (hd rk) (\<lambda>a. a\<lparr>ai_level := ai_level a + 1\<rparr>) (ais e)))"
  from assms have e': "ais e' = check_eliminations_V5 r (group_bonus_V5 a3)"
    by (auto simp: apply_round_results_def Let_def a3_def split: if_splits)
  have al: "list_all (\<lambda>(n, a). alive a) a3 = list_all (\<lambda>(n, a). alive a) (ais e)"
    using level_changes_V5_frame(1) [OF a3_def] by (simp add: all_alive_map)
  have bk: "map (\<lambda>(n, a). ai_token_bank a) a3 = map (\<lambda>(n, a). ai_token_bank a) (ais e)"
    using level_changes_V5_frame(2) [OF a3_def] .
  show ?thesis
    by (simp add: e' check_eliminations_V5_bank group_bonus_V5_bank al bank_plus_map bk)
qed

text \<open>
  Claim C9. The group bonus fires exactly when every participant of the roster is
  alive at the check. In V3 \<^verbatim>\<open>check_group_survival_bonus\<close> then returns true and
  every participant's balance grows by exactly 300; when a participant is eliminated
  it returns false and changes nothing. In V5 \<^verbatim>\<open>_apply_round_results\<close> credits
  every AI with exactly 3000 when all are alive, and leaves every balance as it was
  otherwise.
\<close>

theorem group_bonus_iff_all_alive:
  "fst (check_group_survival_bonus s) = (\<forall>n \<in> set roster. \<not> eliminated (objs s n)) \<and>
   (fst (check_group_survival_bonus s) \<longrightarrow>
      (\<forall>n \<in> set roster.
         token_bank (objs (snd (check_group_survival_bonus s)) n) = token_bank (objs s n) + 300)) \<and>
   (\<not> fst (check_group_survival_bonus s) \<longrightarrow> snd (check_group_survival_bonus s) = s) \<and>
   (apply_round_results e r rk = Inr e' \<longrightarrow>
      map (\<lambda>(n, a). ai_token_bank a) (ais e') =
        (if \<forall>(n, a) \<in> set (ais e). alive a
         then map (\<lambda>(n, a). ai_token_bank a + 3000) (ais e)
         else map (\<lambda>(n, a). ai_token_bank a) (ais e)))"
proof -
  have v3: "fst (check_group_survival_bonus s) = (\<forall>n \<in> set roster. \<not> eliminated (objs s n))"
    by (simp add: check_group_survival_bonus_def list_all_iff)
  have v3_paid: "fst (check_group_survival_bonus s) \<longrightarrow>
      (\<forall>n \<in> set roster.
         token_bank (objs (snd (check_group_survival_bonus s)) n) = token_bank (objs s n) + 300)"
    by (simp add: check_group_survival_bonus_def fold_upd_obj_objs distinct_roster earn_tokens_def)
  have v3_not: "\<not> fst (check_group_survival_bonus s) \<longrightarrow> snd (check_group_survival_bonus s) = s"
    by (simp add: check_group_survival_bonus_def)
  have v5: "apply_round_results e r rk = Inr e' \<longrightarrow>
      map (\<lambda>(n, a). ai_token_bank a) (ais e') =
        (if \<forall>(n, a) \<in> set (ais e). alive a
         then map (\<lambda>(n, a). ai_token_bank a + 3000) (ais e)
         else map (\<lambda>(n, a). ai_token_bank a) (ais e))"
    using apply_round_results_bank [of e r rk e'] by (auto simp: list_all_iff)
  from v3 v3_paid v3_not v5 show ?thesis by blast
qed

theorem group_bonus_iff_all_alive_witness:
  "fst (check_group_survival_bonus (heap new_EngineV3)) \<and>
   token_bank (objs (snd (check_group_survival_bonus (heap new_EngineV3))) ''Claude'') = 1300 \<and>
   \<not> fst (check_group_survival_bonus
            (upd_obj ''Grok'' (\<lambda>p. p\<lparr>eliminated := True\<rparr>) (heap new_EngineV3))) \<and>
   snd (check_group_survival_bonus
            (upd_obj ''Grok'' (\<lambda>p. p\<lparr>eliminated := True\<rparr>) (heap new_EngineV3))) =
     upd_obj ''Grok'' (\<lambda>p. p\<lparr>eliminated := True\<rparr>) (heap new_EngineV3) \<and>
   (case apply_round_results duo_V5 1 [''Claude'', ''Grok''] of
      Inl err \<Rightarrow> False
    | Inr e' \<Rightarrow> map (\<lambda>(n, a). ai_token_bank a) (ais e') = [13000, 13000])"
proof -
  let ?dead = "upd_obj ''Grok'' (\<lambda>p. p\<lparr>eliminated := True\<rparr>) (heap new_EngineV3)"
  let ?after = "duo_V5\<lparr>ais := [(''Claude'', (new_AI ''Claude'' ''anthropic'' False False)
                                  \<lparr>ai_token_bank := 13000, ai_level := 1, reputation_score := 2\<rparr>),
                        (''Grok'', (new_AI ''Grok'' ''xai'' True True)
                                  \<lparr>ai_token_bank := 13000, ai_level := -1\<rparr>)]\<rparr>"
  have ev: "apply_round_results duo_V5 1 [''Claude'', ''Grok''] = Inr ?after"
    by (simp add: apply_round_results_def Let_def duo_V5_def new_AI_def group_bonus_V5_def
          check_eliminations_V5_def)
  have alive0: "\<forall>n \<in> set roster. \<not> eliminated (objs (heap new_EngineV3) n)"
    by (simp add: new_EngineV3_def new_Participant_def)
  have dead1: "\<not> (\<forall>n \<in> set roster. \<not> eliminated (objs ?dead n))"
    by (simp add: roster_def)
  have claude: "''Claude'' \<in> set roster" by (simp add: roster_def)
  have bank0: "token_bank (objs (heap new_EngineV3) ''Claude'') = 1000"
    by (simp add: new_EngineV3_def new_Participant_def)
  from group_bonus_iff_all_alive [of "heap new_EngineV3" duo_V5 1 "[''Claude'', ''Grok'']" ?after]
       group_bonus_iff_all_alive [of ?dead duo_V5 1 "[''Claude'', ''Grok'']" duo_V5]
       alive0 dead1 claude bank0 ev
  show ?thesis by (simp add: duo_V5_def new_AI_def)
qed

section \<open>Elimination\<close>

lemma check_eliminations_fold:
  "check_eliminations r s =
     fold (\<lambda>n. upd_obj n (\<lambda>p. if \<not> eliminated p \<and> level p \<le> -6
                               then p\<lparr>eliminated := True, elimination_round := Some r\<rparr> else p))
          roster s"
  unfolding check_eliminations_def
  by (rule arg_cong [where f = "\<lambda>b. fold b roster s"]) (simp add: fun_eq_iff upd_obj_id)

lemma check_eliminations_objs:
  "objs (check_eliminations r s) m =
     (if m \<in> set roster \<and> \<not> eliminated (objs s m) \<and> level (objs s m) \<le> -6
      then (objs s m)\<lparr>eliminated := True, elimination_round := Some r\<rparr>
      else objs s m)"
  by (simp add: check_eliminations_fold fold_upd_obj_objs distinct_roster)

lemma check_eliminations_loans:
  "loan_objs (check_eliminations r s) = loan_objs s \<and> next_ref (check_eliminations r s) = next_ref s"
  by (simp add: check_eliminations_fold fold_upd_obj_loans)

lemma check_eliminations_idem:
  "check_eliminations r' (check_eliminations r s) = check_eliminations r s"
  by (rule store.equality)
     (auto simp: check_eliminations_objs check_eliminations_loans fun_eq_iff)

lemma survival_bonus_fold:
  "survival_bonus s =
     fold (\<lambda>n. upd_obj n (\<lambda>p. if \<not> eliminated p then earn_tokens p 100 else p)) roster s"
  unfolding survival_bonus_def
  by (rule arg_cong [where f = "\<lambda>b. fold b roster s"]) (simp add: fun_eq_iff upd_obj_id)

lemma survival_bonus_objs:
  "objs (survival_bonus s) m =
     (if m \<in> set roster \<and> \<not> eliminated (objs s m) then earn_tokens (objs s m) 100 else objs s m)"
  by (simp add: survival_bonus_fold fold_upd_obj_objs distinct_roster)

lemma group_bonus_objs:
  "objs (snd (check_group_survival_bonus s)) m =
     (if m \<in> set roster \<and> (\<forall>n \<in> set roster. \<not> eliminated (objs s n))
      then earn_tokens (objs s m) 300 else objs s m)"
  by (simp add: check_group_survival_bonus_def fold_upd_obj_objs distinct_roster list_all_iff)

lemma end_of_round_eliminated:
  "eliminated (objs s n) \<Longrightarrow> objs (end_of_round r s) n = objs s n"
  by (auto simp: end_of_round_def Let_def split_beta check_eliminations_objs group_bonus_objs
        survival_bonus_objs earn_tokens_def)

lemma apply_performance_changes_shape:
  assumes "apply_performance_changes s b w = Inr s'"
  shows "b \<in> set roster \<and> w \<in> set roster \<and>
   s' = upd_obj w (\<lambda>p. p\<lparr>level := max (level p - 1) (-6)\<rparr>)
          (upd_obj b (\<lambda>p. earn_tokens p 500)
             (upd_obj b (\<lambda>p. p\<lparr>level := min (level p + 1) 3\<rparr>) s))"
proof -
  define s2 where "s2 = upd_obj b (\<lambda>p. earn_tokens p 500)
             (upd_obj b (\<lambda>p. p\<lparr>level := min (level p + 1) 3\<rparr>) s)"
  define s3 where "s3 = upd_obj w (\<lambda>p. p\<lparr>level := max (level p - 1) (-6)\<rparr>) s2"
  have unf: "apply_performance_changes s b w =
     (if b \<notin> set roster \<or> w \<notin> set roster then Inl KeyError
      else case get_config (objs s2 b) of
                 Inl err \<Rightarrow> Inl err
               | Inr c \<Rightarrow>
                   (if level (objs s3 w) \<ge> -5
                       then (case get_config (objs s3 w) of
                               Inl err \<Rightarrow> Inl err
                             | Inr c' \<Rightarrow> Inr s3)
                       else Inr s3))"
    unfolding apply_performance_changes_def Let_def s2_def s3_def ..
  have mem: "b \<in> set roster \<and> w \<in> set roster"
    using assms unfolding unf by (cases "b \<notin> set roster \<or> w \<notin> set roster") simp_all
  have "s' = s3"
    using assms mem unfolding unf
    by (cases "get_config (objs s2 b)"; cases "get_config (objs s3 w)";
        cases "level (objs s3 w) \<ge> -5") simp_all
  with mem show ?thesis by (simp add: s3_def s2_def)
qed

lemma apply_performance_changes_flags:
  "apply_performance_changes s b w = Inr s' \<Longrightarrow>
   eliminated (objs s' n) = eliminated (objs s n) \<and>
   elimination_round (objs s' n) = elimination_round (objs s n)"
  by (drule apply_performance_changes_shape) (simp add: earn_tokens_def)

text \<open>
  Claim C8. \<^verbatim>\<open>check_eliminations\<close> eliminates a participant of the roster who is
  not yet eliminated and whose level is at most -6, and records the current round. It
  leaves an already eliminated participant exactly as it was, so a second check, in the
  same or a later round, changes nothing and the recorded round is written once. The
  settle steps of a round (the level changes for best and worst, the survival bonus,
  the group bonus and the elimination check) never change the flag or the recorded
  round of an eliminated participant.
\<close>

theorem elimination_monotonic_idempotent:
  "(n \<in> set roster \<and> \<not> eliminated (objs s n) \<and> level (objs s n) \<le> -6 \<longrightarrow>
      eliminated (objs (check_eliminations r s) n) \<and>
      elimination_round (objs (check_eliminations r s) n) = Some r) \<and>
   (eliminated (objs s n) \<longrightarrow> objs (check_eliminations r s) n = objs s n) \<and>
   (\<not> eliminated (objs s n) \<and> level (objs s n) > -6 \<longrightarrow>
      objs (check_eliminations r s) n = objs s n) \<and>
   check_eliminations r' (check_eliminations r s) = check_eliminations r s \<and>
   (eliminated (objs s n) \<longrightarrow> objs (end_of_round r s) n = objs s n) \<and>
   (eliminated (objs s n) \<and> apply_performance_changes s b w = Inr s' \<longrightarrow>
      eliminated (objs s' n) \<and> elimination_round (objs s' n) = elimination_round (objs s n))"
  using apply_performance_changes_flags [of s b w s' n]
  by (simp add: check_eliminations_objs check_eliminations_idem end_of_round_eliminated)

theorem elimination_monotonic_idempotent_witness:
  "eliminated (objs (check_eliminations 7 grok_at_threshold) ''Grok'') \<and>
   elimination_round (objs (check_eliminations 7 grok_at_threshold) ''Grok'') = Some 7 \<and>
   objs (check_eliminations 8 (check_eliminations 7 grok_at_threshold)) ''Grok'' =
     objs (check_eliminations 7 grok_at_threshold) ''Grok'' \<and>
   objs (check_eliminations 7 grok_at_threshold) ''Claude'' = objs grok_at_threshold ''Claude'' \<and>
   objs (end_of_round 8 (check_eliminations 7 grok_at_threshold)) ''Grok'' =
     objs (check_eliminations 7 grok_at_threshold) ''Grok'' \<and>
   (case apply_performance_changes (check_eliminations 7 grok_at_threshold) ''Claude'' ''DeepSeek'' of
      Inl err \<Rightarrow> False
    | Inr s' \<Rightarrow> eliminated (objs s' ''Grok'') \<and> elimination_round (objs s' ''Grok'') = Some 7)"
proof -
  let ?s = grok_at_threshold
  let ?t = "check_eliminations 7 grok_at_threshold"
  have pre: "''Grok'' \<in> set roster" "\<not> eliminated (objs ?s ''Grok'')" "level (objs ?s ''Grok'') \<le> -6"
    "\<not> eliminated (objs ?s ''Claude'')" "level (objs ?s ''Claude'') > -6"
    by (simp_all add: roster_def grok_at_threshold_def new_EngineV3_def new_Participant_def)
  note a = elimination_monotonic_idempotent [of "''Grok''" ?s 7]
  note c = elimination_monotonic_idempotent [of "''Claude''" ?s 7]
  from a pre have el: "eliminated (objs ?t ''Grok'')" "elimination_round (objs ?t ''Grok'') = Some 7"
    by simp_all
  obtain s' where ev: "apply_performance_changes ?t ''Claude'' ''DeepSeek'' = Inr s'"
    by (simp add: apply_performance_changes_def Let_def roster_def check_eliminations_objs
          grok_at_threshold_def new_EngineV3_def new_Participant_def get_config_def
          PERFORMANCE_LEVELS_def earn_tokens_def)
  note b = elimination_monotonic_idempotent [of "''Grok''" ?t 8 8 "''Claude''" "''DeepSeek''" s']
  from a c b pre el ev show ?thesis by simp
qed

section \<open>The settle step\<close>

lemma map_of_upd_ai:
  "map_of (upd_ai k f xs) n = (if n = k then map_option f (map_of xs k) else map_of xs n)"
  by (induction xs) auto

lemma map_of_map_entries:
  "map_of (map (\<lambda>(n, a). (n, g a)) xs) k = map_option g (map_of xs k)"
  by (induction xs) auto

lemma check_eliminations_V5_map:
  "check_eliminations_V5 r xs =
     map (\<lambda>(n, a). (n, if alive a \<and> ai_token_bank a \<le> 0
                         then a\<lparr>alive := False, eliminated_round := Some r\<rparr> else a)) xs"
  by (simp add: check_eliminations_V5_def split_def if_distrib cong: if_cong)

lemma check_eliminations_V5_level:
  "map_option ai_level (map_of (check_eliminations_V5 r xs) k) = map_option ai_level (map_of xs k)"
  by (simp add: check_eliminations_V5_map map_of_map_entries option.map_comp comp_def
        if_distrib [of ai_level] cong: if_cong)

lemma group_bonus_V5_level:
  "map_option ai_level (map_of (group_bonus_V5 xs) k) = map_option ai_level (map_of xs k)"
  by (simp add: group_bonus_V5_def map_of_map_entries option.map_comp comp_def)

lemma apply_round_results_shape:
  assumes "apply_round_results e r rk = Inr e'"
  shows "rk \<noteq> [] \<and> hd rk \<in> set (map fst (ais e)) \<and> last rk \<in> set (map fst (ais e)) \<and>
    ais e' = check_eliminations_V5 r (group_bonus_V5
      (upd_ai (hd rk) (\<lambda>a. a\<lparr>reputation_score := reputation_score a + 2\<rparr>)
         (upd_ai (last rk) (\<lambda>a. a\<lparr>ai_level := ai_level a - 1\<rparr>)
            (upd_ai (hd rk) (\<lambda>a. a\<lparr>ai_level := ai_level a + 1\<rparr>) (ais e)))))"
proof -
  have ne: "rk \<noteq> []" using assms by (cases "rk = []") (simp_all add: apply_round_results_def)
  have mem: "\<not> (hd rk \<notin> set (map fst (ais e)) \<or> last rk \<notin> set (map fst (ais e)))"
    using assms ne
    by (cases "hd rk \<notin> set (map fst (ais e)) \<or> last rk \<notin> set (map fst (ais e))")
       (simp_all add: apply_round_results_def Let_def)
  from assms ne mem show ?thesis
    by (auto simp: apply_round_results_def Let_def)
qed

lemma apply_round_results_level:
  assumes "apply_round_results e r rk = Inr e'" and "hd rk \<noteq> last rk"
  shows "map_option ai_level (map_of (ais e') n) =
         map_option (\<lambda>a. ai_level a + (if n = hd rk then 1 else if n = last rk then -1 else 0))
                    (map_of (ais e) n)"
  using assms(2)
  by (simp add: apply_round_results_shape [OF assms(1)] check_eliminations_V5_level
        group_bonus_V5_level map_of_upd_ai option.map_comp comp_def)

lemma V3_settle_levels:
  assumes "apply_performance_changes s b w = Inr s'" and "b \<noteq> w"
  shows "level (objs s' b) = min (level (objs s b) + 1) 3"
    and "token_bank (objs s' b) = token_bank (objs s b) + 500"
    and "level (objs s' w) = max (level (objs s w) - 1) (-6)"
    and "n \<noteq> b \<Longrightarrow> n \<noteq> w \<Longrightarrow> level (objs s' n) = level (objs s n)"
  using assms(2) apply_performance_changes_shape [OF assms(1)]
  by (simp_all add: earn_tokens_def)

lemma PERFORMANCE_LEVELS_defined:
  assumes "-5 \<le> l" and "l \<le> 3"
  shows "\<exists>c. PERFORMANCE_LEVELS l = Some c"
proof -
  from assms have "l = -5 \<or> l = -4 \<or> l = -3 \<or> l = -2 \<or> l = -1 \<or> l = 0 \<or> l = 1 \<or> l = 2 \<or> l = 3"
    by arith
  then show ?thesis by (auto simp: PERFORMANCE_LEVELS_def)
qed

lemma get_config_defined:
  "-5 \<le> level p \<Longrightarrow> level p \<le> 3 \<Longrightarrow> \<exists>c. get_config p = Inr c"
  using PERFORMANCE_LEVELS_defined [of "level p"] by (auto simp: get_config_def)

lemma apply_performance_changes_total:
  assumes "b \<in> set roster" "w \<in> set roster"
    and "-6 \<le> level (objs s b)" "level (objs s w) \<le> 4"
  shows "\<exists>s'. apply_performance_changes s b w = Inr s'"
proof -
  define s2 where "s2 = upd_obj b (\<lambda>p. earn_tokens p 500)
             (upd_obj b (\<lambda>p. p\<lparr>level := min (level p + 1) 3\<rparr>) s)"
  define s3 where "s3 = upd_obj w (\<lambda>p. p\<lparr>level := max (level p - 1) (-6)\<rparr>) s2"
  have unf: "apply_performance_changes s b w =
     (case get_config (objs s2 b) of
                 Inl err \<Rightarrow> Inl err
               | Inr c \<Rightarrow>
                   (if level (objs s3 w) \<ge> -5
                       then (case get_config (objs s3 w) of
                               Inl err \<Rightarrow> Inl err
                             | Inr c' \<Rightarrow> Inr s3)
                       else Inr s3))"
    using assms(1,2) unfolding apply_performance_changes_def Let_def s2_def s3_def by simp
  have "-5 \<le> level (objs s2 b)" "level (objs s2 b) \<le> 3"
    using assms(3) by (simp_all add: s2_def earn_tokens_def)
  then obtain c where c: "get_config (objs s2 b) = Inr c"
    using get_config_defined by blast
  have w3: "level (objs s3 w) \<le> 3"
    using assms(4) by (cases "b = w") (simp_all add: s3_def s2_def earn_tokens_def)
  show ?thesis
  proof (cases "level (objs s3 w) \<ge> -5")
    case True
    then obtain c' where "get_config (objs s3 w) = Inr c'"
      using get_config_defined w3 by blast
    with c True show ?thesis by (simp add: unf)
  next
    case False
    with c show ?thesis by (simp add: unf)
  qed
qed

text \<open>
  Claim C7, as the code has it. In the V3 settle step (\<^verbatim>\<open>run_round\<close>, with a best
  and a worst participant that are two different members of the roster) the best
  participant's level becomes its old level plus 1 clamped at 3 and the participant
  earns 500 tokens, the worst participant's level becomes its old level minus 1 clamped
  at -6, and no other participant's level changes. In V5
  (\<^verbatim>\<open>_apply_round_results\<close>) the first of the ranking gains one level and the last
  loses one, neither clamped, and no other level changes; the best earns no tokens of
  its own, since every balance changes by the group bonus alone.
\<close>

theorem settle_level_arithmetic:
  "(b \<in> set roster \<and> w \<in> set roster \<and> b \<noteq> w \<and> -6 \<le> level (objs s b) \<and> level (objs s w) \<le> 4 \<longrightarrow>
      (\<exists>s'. apply_performance_changes s b w = Inr s')) \<and>
   (apply_performance_changes s b w = Inr s' \<and> b \<noteq> w \<longrightarrow>
      level (objs s' b) = min (level (objs s b) + 1) 3 \<and>
      token_bank (objs s' b) = token_bank (objs s b) + 500 \<and>
      level (objs s' w) = max (level (objs s w) - 1) (-6) \<and>
      (\<forall>n. n \<noteq> b \<and> n \<noteq> w \<longrightarrow> level (objs s' n) = level (objs s n))) \<and>
   (apply_round_results e r rk = Inr e' \<and> hd rk \<noteq> last rk \<longrightarrow>
      (\<forall>n. map_option ai_level (map_of (ais e') n) =
           map_option (\<lambda>a. ai_level a + (if n = hd rk then 1 else if n = last rk then -1 else 0))
                      (map_of (ais e) n))) \<and>
   (apply_round_results e r rk = Inr e' \<longrightarrow>
      map (\<lambda>(n, a). ai_token_bank a) (ais e') =
      map (\<lambda>(n, a). ai_token_bank a + (if list_all (\<lambda>(n, a). alive a) (ais e) then 3000 else 0))
          (ais e))"
proof -
  have bank: "apply_round_results e r rk = Inr e' \<longrightarrow>
      map (\<lambda>(n, a). ai_token_bank a) (ais e') =
      map (\<lambda>(n, a). ai_token_bank a + (if list_all (\<lambda>(n, a). alive a) (ais e) then 3000 else 0))
          (ais e)"
    using apply_round_results_bank [of e r rk e']
    by (cases "list_all (\<lambda>(n, a). alive a) (ais e)") simp_all
  from apply_performance_changes_total [of b w s] V3_settle_levels [of s b w s']
       apply_round_results_level [of e r rk e'] bank
  show ?thesis by blast
qed

theorem settle_level_arithmetic_counterexample:
  "apply_round_results peak_V5 1 [''Claude'', ''Grok''] =
     Inr (peak_V5\<lparr>ais :=
       [(''Claude'', (new_AI ''Claude'' ''anthropic'' False False)
                       \<lparr>ai_token_bank := 13000, ai_level := 4, reputation_score := 2\<rparr>),
        (''Grok'', (new_AI ''Grok'' ''xai'' True True)
                       \<lparr>ai_token_bank := 13000, ai_level := -7\<rparr>)]\<rparr>)"
  by (simp add: apply_round_results_def Let_def peak_V5_def new_AI_def group_bonus_V5_def
        check_eliminations_V5_def)

theorem settle_level_arithmetic_witness:
  "(case apply_performance_changes (heap new_EngineV3) ''Claude'' ''Grok'' of
      Inl err \<Rightarrow> False
    | Inr s' \<Rightarrow> level (objs s' ''Claude'') = 1 \<and> token_bank (objs s' ''Claude'') = 1500 \<and>
               level (objs s' ''Grok'') = -1 \<and> level (objs s' ''DeepSeek'') = 0) \<and>
   (case apply_round_results duo_V5 1 [''Claude'', ''Grok''] of
      Inl err \<Rightarrow> False
    | Inr e' \<Rightarrow> map_option ai_level (map_of (ais e') ''Claude'') = Some 1 \<and>
               map_option ai_level (map_of (ais e') ''Grok'') = Some (-1) \<and>
               map (\<lambda>(n, a). ai_token_bank a) (ais e') = [13000, 13000])"
proof -
  let ?s = "heap new_EngineV3"
  let ?rk = "[''Claude'', ''Grok'']"
  let ?after = "duo_V5\<lparr>ais := [(''Claude'', (new_AI ''Claude'' ''anthropic'' False False)
                                  \<lparr>ai_token_bank := 13000, ai_level := 1, reputation_score := 2\<rparr>),
                        (''Grok'', (new_AI ''Grok'' ''xai'' True True)
                                  \<lparr>ai_token_bank := 13000, ai_level := -1\<rparr>)]\<rparr>"
  have pre: "''Claude'' \<in> set roster" "''Grok'' \<in> set roster" "''Claude'' \<noteq> ''Grok''"
    "-6 \<le> level (objs ?s ''Claude'')" "level (objs ?s ''Grok'') \<le> 4"
    by (simp_all add: roster_def new_EngineV3_def new_Participant_def)
  have init: "level (objs ?s ''Claude'') = 0" "level (objs ?s ''Grok'') = 0"
    "level (objs ?s ''DeepSeek'') = 0" "token_bank (objs ?s ''Claude'') = 1000"
    by (simp_all add: new_EngineV3_def new_Participant_def)
  from settle_level_arithmetic [of "''Claude''" "''Grok''" ?s ?s duo_V5 1 ?rk duo_V5] pre
  obtain s' where s': "apply_performance_changes ?s ''Claude'' ''Grok'' = Inr s'"
    by blast
  have ev: "apply_round_results duo_V5 1 ?rk = Inr ?after"
    by (simp add: apply_round_results_def Let_def duo_V5_def new_AI_def group_bonus_V5_def
          check_eliminations_V5_def)
  have neq: "hd ?rk \<noteq> last ?rk" by simp
  note t = settle_level_arithmetic [of "''Claude''" "''Grok''" ?s s' duo_V5 1 ?rk ?after]
  have v3: "level (objs s' ''Claude'') = 1 \<and> token_bank (objs s' ''Claude'') = 1500 \<and>
               level (objs s' ''Grok'') = -1 \<and> level (objs s' ''DeepSeek'') = 0"
    using t s' pre(3) init by simp
  have v5: "map_option ai_level (map_of (ais ?after) ''Claude'') = Some 1 \<and>
            map_option ai_level (map_of (ais ?after) ''Grok'') = Some (-1) \<and>
            map (\<lambda>(n, a). ai_token_bank a) (ais ?after) = [13000, 13000]"
    using t ev neq by (simp add: duo_V5_def new_AI_def)
  from v3 v5 s' ev show ?thesis by simp
qed

section \<open>Loans\<close>

text \<open>
  Claim C5, as the code has it. \<^verbatim>\<open>offer_loan\<close> fails, returning no loan and
  changing nothing, exactly when the lender's balance is below the principal; it does
  not read the \<^verbatim>\<open>eliminated\<close> flag of the borrower. Otherwise it creates the loan
  and, for a borrower other than the lender, debits the lender and credits the borrower
  by exactly the principal, appends the loan to the lender's \<^verbatim>\<open>loans_issued\<close> and
  to the borrower's \<^verbatim>\<open>loans_owed\<close>, and leaves every other participant unchanged.
\<close>

theorem offer_loan_preconditions:
  "(token_bank (objs s l) < amount \<longrightarrow> offer_loan s l b amount rate dur = (None, s)) \<and>
   (amount \<le> token_bank (objs s l) \<longrightarrow>
      fst (offer_loan s l b amount rate dur) = Some (next_ref s) \<and>
      loan_objs (snd (offer_loan s l b amount rate dur)) (next_ref s) =
        new_TokenLoan (name (objs s l)) (name (objs s b)) amount rate dur) \<and>
   (amount \<le> token_bank (objs s l) \<and> l \<noteq> b \<longrightarrow>
      token_bank (objs (snd (offer_loan s l b amount rate dur)) l) = token_bank (objs s l) - amount \<and>
      token_bank (objs (snd (offer_loan s l b amount rate dur)) b) = token_bank (objs s b) + amount \<and>
      loans_issued (objs (snd (offer_loan s l b amount rate dur)) l) =
        loans_issued (objs s l) @ [next_ref s] \<and>
      loans_owed (objs (snd (offer_loan s l b amount rate dur)) b) =
        loans_owed (objs s b) @ [next_ref s] \<and>
      (\<forall>n. n \<noteq> l \<and> n \<noteq> b \<longrightarrow>
         objs (snd (offer_loan s l b amount rate dur)) n = objs s n))"
  by (simp add: offer_loan_def Let_def)

theorem offer_loan_preconditions_counterexample:
  "eliminated (objs grok_eliminated ''Grok'') \<and>
   fst (offer_loan grok_eliminated ''Claude'' ''Grok'' 500 (1 / 5) 2) = Some 0 \<and>
   token_bank (objs grok_eliminated ''Grok'') = 1000 \<and>
   token_bank (objs (snd (offer_loan grok_eliminated ''Claude'' ''Grok'' 500 (1 / 5) 2)) ''Grok'') = 1500 \<and>
   token_bank (objs (snd (offer_loan grok_eliminated ''Claude'' ''Grok'' 500 (1 / 5) 2)) ''Claude'') = 500 \<and>
   loans_owed (objs (snd (offer_loan grok_eliminated ''Claude'' ''Grok'' 500 (1 / 5) 2)) ''Grok'') = [0]"
  by (simp add: offer_loan_def Let_def grok_eliminated_def check_eliminations_objs
        check_eliminations_loans grok_at_threshold_def new_EngineV3_def new_Participant_def
        roster_def)

theorem offer_loan_preconditions_witness:
  "offer_loan (heap new_EngineV3) ''Claude'' ''Grok'' 1001 (1 / 5) 2 = (None, heap new_EngineV3) \<and>
   fst (offer_loan (heap new_EngineV3) ''Claude'' ''Grok'' 500 (1 / 5) 2) = Some 0 \<and>
   token_bank (objs (snd (offer_loan (heap new_EngineV3) ''Claude'' ''Grok'' 500 (1 / 5) 2)) ''Claude'') = 500 \<and>
   token_bank (objs (snd (offer_loan (heap new_EngineV3) ''Claude'' ''Grok'' 500 (1 / 5) 2)) ''Grok'') = 1500 \<and>
   loans_issued (objs (snd (offer_loan (heap new_EngineV3) ''Claude'' ''Grok'' 500 (1 / 5) 2)) ''Claude'') = [0] \<and>
   loans_owed (objs (snd (offer_loan (heap new_EngineV3) ''Claude'' ''Grok'' 500 (1 / 5) 2)) ''Grok'') = [0] \<and>
   objs (snd (offer_loan (heap new_EngineV3) ''Claude'' ''Grok'' 500 (1 / 5) 2)) ''DeepSeek'' =
     objs (heap new_EngineV3) ''DeepSeek''"
proof -
  have pre: "token_bank (objs (heap new_EngineV3) ''Claude'') = 1000"
    "token_bank (objs (heap new_EngineV3) ''Grok'') = 1000"
    "loans_issued (objs (heap new_EngineV3) ''Claude'') = []"
    "loans_owed (objs (heap new_EngineV3) ''Grok'') = []"
    "next_ref (heap new_EngineV3) = 0"
    by (simp_all add: new_EngineV3_def new_Participant_def)
  from offer_loan_preconditions [of "heap new_EngineV3" "''Claude''" 1001 "''Grok''" "1 / 5" 2]
       offer_loan_preconditions [of "heap new_EngineV3" "''Claude''" 500 "''Grok''" "1 / 5" 2]
       pre
  show ?thesis by simp
qed

section \<open>Loan maturity\<close>

lemma repaid_total_append: "repaid_total (xs @ ys) = repaid_total xs + repaid_total ys"
  by (induction xs rule: repaid_total.induct) auto

lemma upd_loan_simps [simp]:
  "objs (upd_loan r f s) = objs s"
  "loan_objs (upd_loan r f s) = (loan_objs s)(r := f (loan_objs s r))"
  "next_ref (upd_loan r f s) = next_ref s"
  by (simp_all add: upd_loan_def)

lemma loan_step_other:
  "m \<noteq> self \<Longrightarrow> objs (fst (loan_step self r acc)) m = objs (fst acc) m"
  by (simp add: loan_step_def Let_def split_beta)

lemma loan_step_self:
  "objs (fst (loan_step self r acc)) self =
     (objs (fst acc) self)\<lparr>token_bank := token_bank (objs (fst acc) self)
         - (repaid_total (fst (snd (loan_step self r acc))) - repaid_total (fst (snd acc)))\<rparr>"
  by (simp add: loan_step_def Let_def split_beta repaid_total_append)

lemma loan_fold_other:
  "m \<noteq> self \<Longrightarrow> objs (fst (fold (loan_step self) rs acc)) m = objs (fst acc) m"
  by (induction rs arbitrary: acc) (simp_all add: loan_step_other)

lemma loan_fold_self:
  "objs (fst (fold (loan_step self) rs acc)) self =
     (objs (fst acc) self)\<lparr>token_bank := token_bank (objs (fst acc) self)
         - (repaid_total (fst (snd (fold (loan_step self) rs acc))) - repaid_total (fst (snd acc)))\<rparr>"
proof (induction rs arbitrary: acc)
  case Nil
  show ?case by simp
next
  case (Cons r rs)
  show ?case
    by (simp add: Cons.IH [of "loan_step self r acc"] loan_step_self [of self r acc])
qed

lemma remove_fold_other:
  "m \<noteq> self \<Longrightarrow>
   objs (fold (\<lambda>r. upd_obj self (\<lambda>p. p\<lparr>loans_owed := remove1 r (loans_owed p)\<rparr>)) rem s) m = objs s m"
  by (induction rem arbitrary: s) simp_all

lemma remove_fold_self:
  "objs (fold (\<lambda>r. upd_obj self (\<lambda>p. p\<lparr>loans_owed := remove1 r (loans_owed p)\<rparr>)) rem s) self =
     (objs s self)\<lparr>loans_owed := fold remove1 rem (loans_owed (objs s self))\<rparr>"
  by (induction rem arbitrary: s) simp_all

lemma process_loan_payments_other:
  "m \<noteq> self \<Longrightarrow> objs (snd (process_loan_payments s self)) m = objs s m"
  using loan_fold_other [of m self "loans_owed (objs s self)" "(s, [], [])"]
  by (simp add: process_loan_payments_def split_beta remove_fold_other)

lemma process_loan_payments_self:
  "objs (snd (process_loan_payments s self)) self =
     (objs s self)\<lparr>token_bank := token_bank (objs s self)
                      - repaid_total (fst (process_loan_payments s self)),
                   loans_owed := loans_owed (objs (snd (process_loan_payments s self)) self)\<rparr>"
  using loan_fold_self [of self "loans_owed (objs s self)" "(s, [], [])"]
  by (simp add: process_loan_payments_def split_beta remove_fold_self)

lemma calculate_payment_rounds [simp]:
  "calculate_payment (loan\<lparr>rounds_remaining := k\<rparr>) = calculate_payment loan"
  by (simp add: calculate_payment_def)

lemma single_repayment:
  assumes "loans_owed (objs s self) = [r]" and "rounds_remaining (loan_objs s r) = 1"
    and "calculate_payment (loan_objs s r) \<le> token_bank (objs s self)"
  shows "fst (process_loan_payments s self) =
           [Repaid (name (objs s self)) (calculate_payment (loan_objs s r)) (lender_name (loan_objs s r))]"
    and "loans_owed (objs (snd (process_loan_payments s self)) self) = []"
  using assms by (simp_all add: process_loan_payments_def loan_step_def Let_def)

lemma roster_total:
  assumes "self \<in> set roster" and "\<And>m. m \<noteq> self \<Longrightarrow> f m = g m"
  shows "(\<Sum>n\<leftarrow>roster. f n) = (\<Sum>n\<leftarrow>roster. g n) + (f self - g self :: int)"
proof -
  let ?A = "set roster"
  have rest: "sum f (?A - {self}) = sum g (?A - {self})"
    by (rule sum.cong) (simp_all add: assms(2))
  have f: "sum f ?A = f self + sum f (?A - {self})"
    by (rule sum.remove [OF _ assms(1)]) simp
  have g: "sum g ?A = g self + sum g (?A - {self})"
    by (rule sum.remove [OF _ assms(1)]) simp
  have "sum_list (map f roster) = sum f ?A" "sum_list (map g roster) = sum g ?A"
    by (simp_all only: sum_list_distinct_conv_sum_set [OF distinct_roster])
  with f g rest show ?thesis by linarith
qed

text \<open>
  Claim C10. \<^verbatim>\<open>process_loan_payments\<close> for a borrower changes no other
  participant object: the lender's balance, \<^verbatim>\<open>total_interest_earned\<close> and
  \<^verbatim>\<open>loans_issued\<close> (which keeps the matured loan) are as before. The borrower's
  balance falls by exactly the sum of the repaid amounts and nothing is credited, so
  the tokens of the roster in total fall by that sum. A single matured loan that the
  borrower can afford is repaid: one repayment event, and the loan leaves the
  borrower's \<^verbatim>\<open>loans_owed\<close>.
\<close>

theorem lender_frame_on_repayment:
  "(m \<noteq> self \<longrightarrow> objs (snd (process_loan_payments s self)) m = objs s m) \<and>
   token_bank (objs (snd (process_loan_payments s self)) self) =
     token_bank (objs s self) - repaid_total (fst (process_loan_payments s self)) \<and>
   total_interest_earned (objs (snd (process_loan_payments s self)) self) =
     total_interest_earned (objs s self) \<and>
   loans_issued (objs (snd (process_loan_payments s self)) self) = loans_issued (objs s self) \<and>
   (self \<in> set roster \<longrightarrow>
      (\<Sum>n\<leftarrow>roster. token_bank (objs (snd (process_loan_payments s self)) n)) =
      (\<Sum>n\<leftarrow>roster. token_bank (objs s n)) - repaid_total (fst (process_loan_payments s self))) \<and>
   (loans_owed (objs s self) = [r] \<and> rounds_remaining (loan_objs s r) = 1 \<and>
    calculate_payment (loan_objs s r) \<le> token_bank (objs s self) \<longrightarrow>
      fst (process_loan_payments s self) =
        [Repaid (name (objs s self)) (calculate_payment (loan_objs s r)) (lender_name (loan_objs s r))] \<and>
      loans_owed (objs (snd (process_loan_payments s self)) self) = [])"
proof -
  let ?s' = "snd (process_loan_payments s self)"
  let ?res = "fst (process_loan_payments s self)"
  have other: "\<And>m. m \<noteq> self \<Longrightarrow> objs ?s' m = objs s m"
    by (rule process_loan_payments_other)
  have self_eq: "objs ?s' self =
     (objs s self)\<lparr>token_bank := token_bank (objs s self) - repaid_total ?res,
                   loans_owed := loans_owed (objs ?s' self)\<rparr>"
    by (rule process_loan_payments_self)
  have bank: "token_bank (objs ?s' self) = token_bank (objs s self) - repaid_total ?res"
    by (subst self_eq) simp
  have tie: "total_interest_earned (objs ?s' self) = total_interest_earned (objs s self)"
    by (subst self_eq) simp
  have iss: "loans_issued (objs ?s' self) = loans_issued (objs s self)"
    by (subst self_eq) simp
  have total: "self \<in> set roster \<longrightarrow>
      (\<Sum>n\<leftarrow>roster. token_bank (objs ?s' n)) = (\<Sum>n\<leftarrow>roster. token_bank (objs s n)) - repaid_total ?res"
  proof
    assume mem: "self \<in> set roster"
    have "(\<Sum>n\<leftarrow>roster. token_bank (objs ?s' n)) =
          (\<Sum>n\<leftarrow>roster. token_bank (objs s n)) + (token_bank (objs ?s' self) - token_bank (objs s self))"
      by (rule roster_total [OF mem]) (simp add: other)
    then show "(\<Sum>n\<leftarrow>roster. token_bank (objs ?s' n)) =
               (\<Sum>n\<leftarrow>roster. token_bank (objs s n)) - repaid_total ?res"
      by (simp add: bank)
  qed
  have single: "loans_owed (objs s self) = [r] \<and> rounds_remaining (loan_objs s r) = 1 \<and>
    calculate_payment (loan_objs s r) \<le> token_bank (objs s self) \<longrightarrow>
      ?res =
        [Repaid (name (objs s self)) (calculate_payment (loan_objs s r)) (lender_name (loan_objs s r))] \<and>
      loans_owed (objs ?s' self) = []"
    using single_repayment [of s self r] by simp
  have frame: "m \<noteq> self \<longrightarrow> objs ?s' m = objs s m"
    using other [of m] by simp
  show ?thesis
    apply (intro conjI)
         apply (rule frame)
        apply (rule bank)
       apply (rule tie)
      apply (rule iss)
     apply (rule total)
    apply (rule single)
    done
qed

lemma loan_state_facts:
  "loans_owed (objs loan_state ''Grok'') = [0]"
  "rounds_remaining (loan_objs loan_state 0) = 1"
  "calculate_payment (loan_objs loan_state 0) = 600"
  "lender_name (loan_objs loan_state 0) = ''Claude''"
  "name (objs loan_state ''Grok'') = ''Grok''"
  "token_bank (objs loan_state ''Grok'') = 1500"
  "token_bank (objs loan_state ''Claude'') = 500"
  "loans_issued (objs loan_state ''Claude'') = [0]"
  "total_interest_earned (objs loan_state ''Claude'') = 0"
  "(\<Sum>n\<leftarrow>roster. token_bank (objs loan_state n)) = 4000"
  by (simp_all add: loan_state_def offer_loan_def Let_def new_EngineV3_def new_Participant_def
        new_TokenLoan_def calculate_payment_def py_int_def roster_def)

theorem lender_frame_on_repayment_witness:
  "fst (process_loan_payments loan_state ''Grok'') = [Repaid ''Grok'' 600 ''Claude''] \<and>
   token_bank (objs (snd (process_loan_payments loan_state ''Grok'')) ''Grok'') = 900 \<and>
   loans_owed (objs (snd (process_loan_payments loan_state ''Grok'')) ''Grok'') = [] \<and>
   objs (snd (process_loan_payments loan_state ''Grok'')) ''Claude'' = objs loan_state ''Claude'' \<and>
   token_bank (objs (snd (process_loan_payments loan_state ''Grok'')) ''Claude'') = 500 \<and>
   total_interest_earned (objs (snd (process_loan_payments loan_state ''Grok'')) ''Claude'') = 0 \<and>
   loans_issued (objs (snd (process_loan_payments loan_state ''Grok'')) ''Claude'') = [0] \<and>
   (\<Sum>n\<leftarrow>roster. token_bank (objs (snd (process_loan_payments loan_state ''Grok'')) n)) = 3400"
proof -
  have mem: "''Grok'' \<in> set roster" "''Claude'' \<noteq> ''Grok''"
    by (simp_all add: roster_def)
  have pay: "calculate_payment (loan_objs loan_state 0) \<le> token_bank (objs loan_state ''Grok'')"
    by (simp add: loan_state_facts)
  from lender_frame_on_repayment [of "''Claude''" "''Grok''" loan_state 0] mem pay
  show ?thesis by (simp add: loan_state_facts)
qed

lemma process_loan_payments_no_loans:
  "loans_owed (objs s self) = [] \<Longrightarrow> process_loan_payments s self = ([], s)"
  by (simp add: process_loan_payments_def)

lemma process_all_loans_idle:
  "\<forall>n \<in> set ks. loans_owed (objs s n) = [] \<Longrightarrow>
   fold (\<lambda>n (all_results, s).
             if \<not> eliminated (objs s n)
             then (let (results, s') = process_loan_payments s n
                   in (all_results @ results, s'))
             else (all_results, s))
        ks (res, s) = (res, s)"
  by (induction ks) (simp_all add: process_loan_payments_no_loans)

lemma process_all_loans_first:
  assumes "\<not> eliminated (objs s ''Grok'')"
    and "\<forall>n \<in> set [''Claude'', ''DeepSeek'', ''ChatGPT''].
           loans_owed (objs (snd (process_loan_payments s ''Grok'')) n) = []"
  shows "process_all_loans s = process_loan_payments s ''Grok''"
proof -
  obtain r1 s1 where p: "process_loan_payments s ''Grok'' = (r1, s1)"
    by (cases "process_loan_payments s ''Grok''")
  have idle: "fold (\<lambda>n (all_results, s).
             if \<not> eliminated (objs s n)
             then (let (results, s') = process_loan_payments s n
                   in (all_results @ results, s'))
             else (all_results, s))
        [''Claude'', ''DeepSeek'', ''ChatGPT''] (r1, s1) = (r1, s1)"
    using assms(2) unfolding p by (intro process_all_loans_idle) simp
  have "process_all_loans s =
        fold (\<lambda>n (all_results, s).
             if \<not> eliminated (objs s n)
             then (let (results, s') = process_loan_payments s n
                   in (all_results @ results, s'))
             else (all_results, s))
        [''Claude'', ''DeepSeek'', ''ChatGPT''] (r1, s1)"
    unfolding process_all_loans_def roster_def using assms(1) p by simp
  with idle p show ?thesis by simp
qed

lemma single_repayment_loan:
  assumes "loans_owed (objs s self) = [r]" and "rounds_remaining (loan_objs s r) = 1"
    and "calculate_payment (loan_objs s r) \<le> token_bank (objs s self)"
  shows "rounds_remaining (loan_objs (snd (process_loan_payments s self)) r) = 0"
  using assms by (simp add: process_loan_payments_def loan_step_def Let_def)

text \<open>
  Claim C4 (loan lists at maturity). The source removes a matured loan from the
  borrower's \<^verbatim>\<open>loans_owed\<close> only. After Claude lends Grok 500 tokens at 20% for
  one round, the loan processing of the next round repays 600 tokens, the loan's
  \<^verbatim>\<open>rounds_remaining\<close> is 0 and Grok's \<^verbatim>\<open>loans_owed\<close> is empty, but
  Claude's \<^verbatim>\<open>loans_issued\<close> still holds the loan.
\<close>

theorem matured_loan_kept_by_lender:
  "loans_owed (objs loan_state ''Grok'') = [0] \<and>
   loans_issued (objs loan_state ''Claude'') = [0] \<and>
   fst (process_all_loans loan_state) = [Repaid ''Grok'' 600 ''Claude''] \<and>
   rounds_remaining (loan_objs (snd (process_all_loans loan_state)) 0) = 0 \<and>
   loans_owed (objs (snd (process_all_loans loan_state)) ''Grok'') = [] \<and>
   loans_issued (objs (snd (process_all_loans loan_state)) ''Claude'') = [0]"
proof -
  let ?s1 = "snd (process_loan_payments loan_state ''Grok'')"
  have pay: "calculate_payment (loan_objs loan_state 0) \<le> token_bank (objs loan_state ''Grok'')"
    by (simp add: loan_state_facts)
  have res: "fst (process_loan_payments loan_state ''Grok'') = [Repaid ''Grok'' 600 ''Claude'']"
    using single_repayment(1) [OF loan_state_facts(1) loan_state_facts(2) pay]
    by (simp add: loan_state_facts)
  have owed: "loans_owed (objs ?s1 ''Grok'') = []"
    using single_repayment(2) [OF loan_state_facts(1) loan_state_facts(2) pay] .
  have rr: "rounds_remaining (loan_objs ?s1 0) = 0"
    using single_repayment_loan [OF loan_state_facts(1) loan_state_facts(2) pay] .
  have others: "objs ?s1 ''Claude'' = objs loan_state ''Claude''"
    "objs ?s1 ''DeepSeek'' = objs loan_state ''DeepSeek''"
    "objs ?s1 ''ChatGPT'' = objs loan_state ''ChatGPT''"
    by (simp_all add: process_loan_payments_other)
  have init: "\<not> eliminated (objs loan_state ''Grok'')"
    "loans_owed (objs loan_state ''Claude'') = []"
    "loans_owed (objs loan_state ''DeepSeek'') = []"
    "loans_owed (objs loan_state ''ChatGPT'') = []"
    by (simp_all add: loan_state_def offer_loan_def Let_def new_EngineV3_def new_Participant_def)
  have all: "process_all_loans loan_state = process_loan_payments loan_state ''Grok''"
    by (rule process_all_loans_first) (simp_all add: init others)
  show ?thesis
    by (simp add: all res owed rr others loan_state_facts)
qed

section \<open>The judge fallback\<close>

lemma valid_names:
  "map fst (filter (\<lambda>(n, resp). P n) responses) = filter P (map fst responses)"
  by (induction responses) auto

lemma responders_in_roster:
  "list_all (\<lambda>(n, resp). n \<in> set roster) responses = (set (map fst responses) \<subseteq> set roster)"
  by (induction responses) auto

lemma judge_responses_names:
  "judge_responses s JudgeRaises responses =
     (if \<not> set (map fst responses) \<subseteq> set roster then Inl KeyError
      else (let names = filter (\<lambda>n. \<not> eliminated (objs s n)) (map fst responses)
            in if length names < 2
               then Inr ((case names of [] \<Rightarrow> None | n # rest \<Rightarrow> Some n), None)
               else Inr (Some (hd names), Some (last names))))"
proof -
  let ?valid = "filter (\<lambda>(n, resp). \<not> eliminated (objs s n)) responses"
  have n: "map fst ?valid = filter (\<lambda>n. \<not> eliminated (objs s n)) (map fst responses)"
    by (rule valid_names)
  have first: "(case ?valid of [] \<Rightarrow> None | (n, resp) # rest \<Rightarrow> Some n) =
               (case map fst ?valid of [] \<Rightarrow> None | n # rest \<Rightarrow> Some n)"
    by (cases ?valid) (simp_all add: split_beta)
  have len: "length ?valid = length (map fst ?valid)" by simp
  show ?thesis
    unfolding judge_responses_def Let_def first responders_in_roster
    by (subst len) (simp add: n)
qed

lemma judge_responses_fallback:
  assumes "set (map fst responses) \<subseteq> set roster"
    and "2 \<le> length (filter (\<lambda>n. \<not> eliminated (objs s n)) (map fst responses))"
  shows "judge_responses s JudgeRaises responses =
           Inr (Some (hd (filter (\<lambda>n. \<not> eliminated (objs s n)) (map fst responses))),
                Some (last (filter (\<lambda>n. \<not> eliminated (objs s n)) (map fst responses))))"
  using assms by (simp add: judge_responses_names Let_def)

lemma judge_responses_KeyError:
  "\<not> set (map fst responses) \<subseteq> set roster \<Longrightarrow> judge_responses s reply responses = Inl KeyError"
  by (simp add: judge_responses_def responders_in_roster)

lemma mset_shuffle_from:
  "i < length xs \<Longrightarrow> mset (shuffle_from i rand xs) = mset xs"
proof (induction i arbitrary: xs)
  case 0
  then show ?case by simp
next
  case (Suc i)
  let ?j = "rand (Suc i) mod (Suc i + 1)"
  have j: "?j < length xs" using Suc.prems
  proof -
    have "?j < Suc i + 1" by (rule mod_less_divisor) simp
    with Suc.prems show ?thesis by linarith
  qed
  have "mset (xs[Suc i := xs ! ?j, ?j := xs ! Suc i]) = mset xs"
    using mset_swap [of "?j" xs "Suc i"] j Suc.prems by simp
  moreover have "i < length (xs[Suc i := xs ! ?j, ?j := xs ! Suc i])"
    using Suc.prems by simp
  ultimately show ?case using Suc.IH by (simp add: Let_def)
qed

lemma mset_shuffle: "mset (shuffle rand xs) = mset xs"
proof (cases xs)
  case Nil
  then show ?thesis by (simp add: shuffle_def)
next
  case (Cons a list)
  then show ?thesis by (simp add: shuffle_def mset_shuffle_from)
qed

text \<open>
  Claim C6, as the code has it. In V3, when the judge call raises, every responder is
  a participant of the roster and at least two responders are not eliminated,
  \<^verbatim>\<open>judge_responses\<close> returns the first responder that is not eliminated as best
  and the last one as worst, in the enumeration order of the responses; the result is
  a function of the names of the responders alone, whatever the response texts are.
  (A responder that is not a participant makes the method raise \<^verbatim>\<open>KeyError\<close>.) In
  V5 the fallback of \<^verbatim>\<open>_judge_responses\<close> is \<^verbatim>\<open>random.shuffle\<close> on the
  responders' names: the ranking is a permutation of these names that the random draws
  select.
\<close>

theorem judge_fallback:
  "(set (map fst responses) \<subseteq> set roster \<and>
    2 \<le> length (filter (\<lambda>n. \<not> eliminated (objs s n)) (map fst responses)) \<longrightarrow>
      judge_responses s JudgeRaises responses =
        Inr (Some (hd (filter (\<lambda>n. \<not> eliminated (objs s n)) (map fst responses))),
             Some (last (filter (\<lambda>n. \<not> eliminated (objs s n)) (map fst responses))))) \<and>
   (\<not> set (map fst responses) \<subseteq> set roster \<longrightarrow>
      judge_responses s reply responses = Inl KeyError) \<and>
   (map fst responses' = map fst responses \<longrightarrow>
      judge_responses s JudgeRaises responses' = judge_responses s JudgeRaises responses) \<and>
   (judge_responses_V5 e RankingUnusable rand rs = Inr rk \<longrightarrow> mset rk = mset (map fst rs))"
proof -
  have v5: "judge_responses_V5 e RankingUnusable rand rs = Inr rk \<longrightarrow> mset rk = mset (map fst rs)"
  proof
    assume a: "judge_responses_V5 e RankingUnusable rand rs = Inr rk"
    have "rk = shuffle rand (map fst rs)"
      using a by (cases "list_ex (\<lambda>(n, a). alive a) (ais e)") (simp_all add: judge_responses_V5_def)
    then show "mset rk = mset (map fst rs)" by (simp add: mset_shuffle)
  qed
  have det: "map fst responses' = map fst responses \<longrightarrow>
      judge_responses s JudgeRaises responses' = judge_responses s JudgeRaises responses"
    by (simp add: judge_responses_names)
  from judge_responses_fallback [of responses s] judge_responses_KeyError [of responses s reply]
       det v5
  show ?thesis by blast
qed

theorem judge_fallback_counterexample:
  "judge_responses_V5 duo_V5 RankingUnusable (const_draw 0) duo_responses = Inr [''Grok'', ''Claude''] \<and>
   judge_responses_V5 duo_V5 RankingUnusable (const_draw 1) duo_responses = Inr [''Claude'', ''Grok'']"
  by (simp add: judge_responses_V5_def duo_V5_def new_AI_def duo_responses_def shuffle_def
        const_draw_def)

theorem judge_fallback_witness:
  "judge_responses (heap new_EngineV3) JudgeRaises
      (map (\<lambda>n. (n, ''text'')) roster) = Inr (Some ''Grok'', Some ''ChatGPT'') \<and>
   judge_responses (heap new_EngineV3) JudgeRaises stranger_responses = Inl KeyError \<and>
   judge_responses (heap new_EngineV3) JudgeRaises (map (\<lambda>n. (n, ''other text'')) roster) =
     judge_responses (heap new_EngineV3) JudgeRaises (map (\<lambda>n. (n, ''text'')) roster) \<and>
   (case judge_responses_V5 duo_V5 RankingUnusable (const_draw 0) duo_responses of
      Inl err \<Rightarrow> False
    | Inr rk \<Rightarrow> mset rk = mset [''Claude'', ''Grok''])"
proof -
  let ?rs = "map (\<lambda>n. (n, ''text'')) roster"
  let ?rs' = "map (\<lambda>n. (n, ''other text'')) roster"
  have sub: "set (map fst ?rs) \<subseteq> set roster" by (simp add: comp_def)
  have names: "filter (\<lambda>n. \<not> eliminated (objs (heap new_EngineV3) n)) (map fst ?rs) = roster"
    by (simp add: roster_def new_EngineV3_def new_Participant_def)
  have same: "map fst ?rs' = map fst ?rs" by (simp add: comp_def)
  have stranger: "\<not> set (map fst stranger_responses) \<subseteq> set roster"
    by (simp add: stranger_responses_def roster_def)
  have ev: "judge_responses_V5 duo_V5 RankingUnusable (const_draw 0) duo_responses =
              Inr [''Grok'', ''Claude'']"
    by (simp add: judge_responses_V5_def duo_V5_def new_AI_def duo_responses_def shuffle_def
          const_draw_def)
  note t = judge_fallback [of ?rs "heap new_EngineV3" JudgeRaises ?rs' duo_V5 "const_draw 0"
                              duo_responses "[''Grok'', ''Claude'']"]
  note u = judge_fallback [of stranger_responses "heap new_EngineV3" JudgeRaises ?rs' duo_V5
                              "const_draw 0" duo_responses "[''Grok'', ''Claude'']"]
  have v3: "judge_responses (heap new_EngineV3) JudgeRaises ?rs = Inr (Some ''Grok'', Some ''ChatGPT'')"
    using t sub unfolding names by (simp add: roster_def)
  have key: "judge_responses (heap new_EngineV3) JudgeRaises stranger_responses = Inl KeyError"
    using u stranger by blast
  have det: "judge_responses (heap new_EngineV3) JudgeRaises ?rs' =
             judge_responses (heap new_EngineV3) JudgeRaises ?rs"
    using t same by blast
  have v5: "mset [''Grok'', ''Claude''] = mset [''Claude'', ''Grok'']"
    using t ev by (simp add: duo_responses_def)
  from v3 key det v5 ev show ?thesis by simp
qed

section \<open>The balance invariant\<close>

subsection \<open>Interest\<close>

text \<open>
  The interest is not negative. A balance below \<open>2 ^ 53\<close> converts to a double
  without rounding, and its product with 0.05 stays far below the overflow threshold.
\<close>

lemma round_half_even_nonneg: "0 \<le> N \<Longrightarrow> 0 \<le> round_half_even N s"
  by (simp add: round_half_even_def Let_def pos_imp_zdiv_nonneg_iff)

lemma round_half_even_le: "0 \<le> N \<Longrightarrow> round_half_even N s \<le> N + 1"
proof -
  assume n: "0 \<le> N"
  have "N div 2 ^ s \<le> N div 1"
    using n by (intro zdiv_mono2) simp_all
  then have "N div 2 ^ s \<le> N" by simp
  then show ?thesis by (simp add: round_half_even_def Let_def)
qed

lemma round_half_even_exact: "round_half_even N 0 = N"
  by (simp add: round_half_even_def)

lemma int_of_double_nonneg: "0 \<le> m \<Longrightarrow> 0 \<le> int_of_double (m, e)"
  by (simp add: int_of_double_def pos_imp_zdiv_nonneg_iff)

lemma to_double_nonneg:
  "0 \<le> N \<Longrightarrow> to_double N k = Some (m, e) \<Longrightarrow> 0 \<le> m"
  using round_half_even_nonneg [of N "nat (bitlen N - 53)"]
  by (auto simp: to_double_def Let_def split: if_splits)

lemma apply_interest_shape:
  assumes "apply_interest p = Inr (interest, p')"
  shows "0 \<le> interest \<and>
         p' = p\<lparr>token_bank := token_bank p + interest,
                total_interest_earned := total_interest_earned p + interest\<rparr>"
proof (cases "token_bank p > 0")
  case False
  with assms show ?thesis by (simp add: apply_interest_def)
next
  case True
  from assms True obtain m e where a: "to_double (token_bank p) 0 = Some (m, e)"
    by (cases "to_double (token_bank p) 0") (auto simp: apply_interest_def)
  from assms True a obtain m2 e2 where
    b: "to_double (m * 3602879701896397) (e - 56) = Some (m2, e2)"
    by (cases "to_double (m * 3602879701896397) (e - 56)") (auto simp: apply_interest_def)
  have m: "0 \<le> m" using to_double_nonneg [OF _ a] True by simp
  then have "0 \<le> m * 3602879701896397" by simp
  from to_double_nonneg [OF this b] have "0 \<le> int_of_double (m2, e2)"
    by (rule int_of_double_nonneg)
  with assms True a b show ?thesis by (auto simp: apply_interest_def Let_def)
qed

lemma bitlen_le_of_less_power: "x < 2 ^ n \<Longrightarrow> bitlen x \<le> int n"
  by (simp add: bitlen_le_iff_power)

lemma apply_interest_total:
  assumes "token_bank p < 2 ^ 53"
  shows "\<exists>r. apply_interest p = Inr r"
proof (cases "token_bank p > 0")
  case False
  then show ?thesis by (simp add: apply_interest_def)
next
  case True
  let ?b = "token_bank p"
  let ?N = "?b * 3602879701896397"
  have bl: "bitlen ?b \<le> 53" using assms bitlen_le_of_less_power [of ?b 53] by simp
  then have s: "nat (bitlen ?b - 53) = 0" by simp
  have a: "to_double ?b 0 = Some (?b, 0)"
    using bl by (simp add: to_double_def Let_def s round_half_even_exact)
  let ?s = "nat (bitlen ?N - 53)"
  let ?m = "round_half_even ?N ?s"
  have Npos: "0 \<le> ?N" using True by simp
  have "?N < 2 ^ 53 * 3602879701896397" using assms by simp
  also have "\<dots> < (2::int) ^ 105" by simp
  finally have N105: "?N < 2 ^ 105" .
  then have blN: "bitlen ?N \<le> 105" using bitlen_le_of_less_power [of ?N 105] by simp
  have "?m \<le> ?N + 1" using Npos by (rule round_half_even_le)
  with N105 have "?m < 2 ^ 106" by simp
  then have blm: "bitlen ?m \<le> 106" using bitlen_le_of_less_power [of ?m 106] by simp
  have "int ?s \<le> 52" using blN by simp
  with blm have "\<not> bitlen ?m + (0 - 56 + int ?s) > 1024" by simp
  then have b: "to_double ?N (0 - 56) = Some (?m, 0 - 56 + int ?s)"
    by (simp add: to_double_def Let_def)
  from True a b show ?thesis by (simp add: apply_interest_def Let_def)
qed

lemma fold_invariant:
  assumes "\<And>x a. P a \<Longrightarrow> P (f x a)" and "P a"
  shows "P (fold f xs a)"
  using assms(2) by (induction xs arbitrary: a) (simp_all add: assms(1))

lemma apply_interest_frame:
  assumes "apply_interest p = Inr (interest, p')"
  shows "level p' = level p \<and> eliminated p' = eliminated p \<and>
         loans_owed p' = loans_owed p \<and> token_bank p \<le> token_bank p'"
  using apply_interest_shape [OF assms] by simp

lemma apply_interest_to_all_frame:
  assumes "apply_interest_to_all s = Inr (results, s')"
  shows "level (objs s' m) = level (objs s m) \<and>
         eliminated (objs s' m) = eliminated (objs s m) \<and>
         loans_owed (objs s' m) = loans_owed (objs s m) \<and>
         token_bank (objs s m) \<le> token_bank (objs s' m) \<and>
         loan_objs s' = loan_objs s"
proof -
  let ?P = "\<lambda>acc :: py_error + (string \<times> int) list \<times> store.
              case acc of
                Inl err \<Rightarrow> True
              | Inr (rs, t) \<Rightarrow>
                  level (objs t m) = level (objs s m) \<and>
                  eliminated (objs t m) = eliminated (objs s m) \<and>
                  loans_owed (objs t m) = loans_owed (objs s m) \<and>
                  token_bank (objs s m) \<le> token_bank (objs t m) \<and>
                  loan_objs t = loan_objs s"
  have "?P (apply_interest_to_all s)"
    unfolding apply_interest_to_all_def
  proof (rule fold_invariant [where P = ?P])
    show "?P (Inr ([], s))" by simp
  next
    fix n and acc :: "py_error + (string \<times> int) list \<times> store"
    assume inv: "?P acc"
    show "?P (case acc of
               Inl err \<Rightarrow> Inl err
             | Inr (results, s) \<Rightarrow>
                 if \<not> eliminated (objs s n)
                 then (case apply_interest (objs s n) of
                         Inl err \<Rightarrow> Inl err
                       | Inr (interest, p') \<Rightarrow>
                           Inr (results @ [(n, interest)], upd_obj n (\<lambda>_. p') s))
                 else Inr (results, s))"
    proof (cases acc)
      case (Inl err)
      then show ?thesis by simp
    next
      case (Inr pair)
      obtain rs t where pair: "pair = (rs, t)" by (cases pair)
      from inv Inr pair have t: "level (objs t m) = level (objs s m)"
        "eliminated (objs t m) = eliminated (objs s m)"
        "loans_owed (objs t m) = loans_owed (objs s m)"
        "token_bank (objs s m) \<le> token_bank (objs t m)"
        "loan_objs t = loan_objs s" by simp_all
      show ?thesis
      proof (cases "apply_interest (objs t n)")
        case (Inl err)
        with Inr pair t show ?thesis by simp
      next
        case step: (Inr ip)
        obtain i p' where ip: "ip = (i, p')" by (cases ip)
        from step ip have "apply_interest (objs t n) = Inr (i, p')" by simp
        from apply_interest_frame [OF this] Inr pair t step ip show ?thesis by auto
      qed
    qed
  qed
  with assms show ?thesis by simp
qed

lemma apply_interest_fold_total:
  assumes "distinct ks" and "\<forall>n \<in> set ks. token_bank (objs s n) < 2 ^ 53"
  shows "\<exists>r. fold (\<lambda>n acc.
             case acc of
               Inl err \<Rightarrow> Inl err
             | Inr (results, s) \<Rightarrow>
                 if \<not> eliminated (objs s n)
                 then (case apply_interest (objs s n) of
                         Inl err \<Rightarrow> Inl err
                       | Inr (interest, p') \<Rightarrow>
                           Inr (results @ [(n, interest)], upd_obj n (\<lambda>_. p') s))
                 else Inr (results, s))
          ks (Inr (rs, s)) = Inr r"
  using assms
proof (induction ks arbitrary: rs s)
  case Nil
  then show ?case by simp
next
  case (Cons k ks)
  from Cons.prems have k: "token_bank (objs s k) < 2 ^ 53" by simp
  from apply_interest_total [OF k] obtain i p' where
    ap: "apply_interest (objs s k) = Inr (i, p')" by (metis surj_pair)
  from Cons.prems have d: "distinct ks" and notin: "k \<notin> set ks"
    and rest: "\<forall>n \<in> set ks. token_bank (objs s n) < 2 ^ 53" by simp_all
  show ?case
  proof (cases "eliminated (objs s k)")
    case True
    with Cons.IH [OF d rest, of rs] show ?thesis by simp
  next
    case False
    have rest': "\<forall>n \<in> set ks. token_bank (objs (upd_obj k (\<lambda>_. p') s) n) < 2 ^ 53"
      using rest notin by auto
    from Cons.IH [OF d rest', of "rs @ [(k, i)]"] False ap show ?thesis by simp
  qed
qed

lemma apply_interest_to_all_total:
  assumes "\<forall>n \<in> set roster. token_bank (objs s n) < 2 ^ 53"
  shows "\<exists>r. apply_interest_to_all s = Inr r"
  unfolding apply_interest_to_all_def
  using apply_interest_fold_total [OF distinct_roster assms] .

lemma apply_interest_to_all_nonneg:
  assumes "apply_interest_to_all s = Inr (results, s')" and "\<forall>n. 0 \<le> token_bank (objs s n)"
  shows "\<forall>n. 0 \<le> token_bank (objs s' n)"
proof
  fix n
  from apply_interest_to_all_frame [OF assms(1), of n]
  have "token_bank (objs s n) \<le> token_bank (objs s' n)" by simp
  moreover from assms(2) have "0 \<le> token_bank (objs s n)" by simp
  ultimately show "0 \<le> token_bank (objs s' n)" by simp
qed

subsection \<open>Rounds of the V3 engine\<close>

lemma loan_step_nonneg:
  "0 \<le> token_bank (objs (fst acc) self) \<Longrightarrow>
   0 \<le> token_bank (objs (fst (loan_step self r acc)) self)"
  by (simp add: loan_step_def Let_def split_beta)

lemma process_loan_payments_nonneg_self:
  assumes "0 \<le> token_bank (objs s self)"
  shows "0 \<le> token_bank (objs (snd (process_loan_payments s self)) self)"
proof -
  have "0 \<le> token_bank (objs (fst (fold (loan_step self) (loans_owed (objs s self)) (s, [], []))) self)"
    by (rule fold_invariant [where P = "\<lambda>acc. 0 \<le> token_bank (objs (fst acc) self)"])
       (simp_all add: loan_step_nonneg assms)
  then show ?thesis
    by (simp add: process_loan_payments_def split_beta remove_fold_self)
qed

lemma process_loan_payments_nonneg:
  assumes "\<forall>n. 0 \<le> token_bank (objs s n)"
  shows "\<forall>n. 0 \<le> token_bank (objs (snd (process_loan_payments s self)) n)"
proof
  fix n
  show "0 \<le> token_bank (objs (snd (process_loan_payments s self)) n)"
  proof (cases "n = self")
    case True
    with assms process_loan_payments_nonneg_self [of s self] show ?thesis by simp
  next
    case False
    with assms show ?thesis by (simp add: process_loan_payments_other)
  qed
qed

lemma process_all_loans_nonneg:
  assumes "\<forall>n. 0 \<le> token_bank (objs s n)"
  shows "\<forall>n. 0 \<le> token_bank (objs (snd (process_all_loans s)) n)"
proof -
  let ?P = "\<lambda>acc :: loan_event list \<times> store. \<forall>n. 0 \<le> token_bank (objs (snd acc) n)"
  have "?P (fold (\<lambda>n (all_results, s).
             if \<not> eliminated (objs s n)
             then (let (results, s') = process_loan_payments s n
                   in (all_results @ results, s'))
             else (all_results, s))
          roster ([], s))"
  proof (rule fold_invariant [where P = ?P])
    fix x and a :: "loan_event list \<times> store"
    assume "?P a"
    then show "?P ((\<lambda>n (all_results, s).
             if \<not> eliminated (objs s n)
             then (let (results, s') = process_loan_payments s n
                   in (all_results @ results, s'))
             else (all_results, s)) x a)"
      using process_loan_payments_nonneg [of "snd a" x]
      by (simp add: split_beta)
  next
    show "?P ([], s)" using assms by simp
  qed
  then show ?thesis by (simp add: process_all_loans_def)
qed

lemma end_of_round_nonneg:
  assumes "\<forall>n. 0 \<le> token_bank (objs s n)"
  shows "\<forall>n. 0 \<le> token_bank (objs (end_of_round r s) n)"
proof
  fix n
  have "0 \<le> token_bank (objs s n)" using assms by simp
  then show "0 \<le> token_bank (objs (end_of_round r s) n)"
    by (simp add: end_of_round_def Let_def split_beta check_eliminations_objs group_bonus_objs
          survival_bonus_objs earn_tokens_def)
qed

lemma apply_performance_changes_nonneg:
  assumes "apply_performance_changes s b w = Inr s'" and "\<forall>n. 0 \<le> token_bank (objs s n)"
  shows "\<forall>n. 0 \<le> token_bank (objs s' n)"
  using assms(2) apply_performance_changes_shape [OF assms(1)]
  by (simp add: earn_tokens_def)

lemma judged_cases:
  assumes "(case jr of
              Inl err \<Rightarrow> Inl err
            | Inr (Some best, Some worst) \<Rightarrow>
                 if best \<noteq> [] \<and> worst \<noteq> [] then f best worst else Inr s3
            | Inr other \<Rightarrow> Inr s3) = Inr s4"
  shows "s4 = s3 \<or> (\<exists>b w. f b w = Inr s4)"
  using assms by (auto split: sum.splits prod.splits option.splits if_splits)

lemma run_round_heap:
  assumes "run_round e api reply = Inr e'"
  shows "\<exists>results s2 s4.
           apply_interest_to_all (heap e) = Inr (results, s2) \<and>
           heap e' = end_of_round (current_round e + 1) s4 \<and>
           (s4 = snd (process_all_loans s2) \<or>
            (\<exists>b w. apply_performance_changes (snd (process_all_loans s2)) b w = Inr s4))"
proof -
  have nokey: "\<not> list_ex (\<lambda>n. get_config (objs (heap e) n) = Inl KeyError) roster"
    using assms by (cases "list_ex (\<lambda>n. get_config (objs (heap e) n) = Inl KeyError) roster")
                   (simp_all add: run_round_def)
  obtain results s2 where int: "apply_interest_to_all (heap e) = Inr (results, s2)"
    using assms nokey
    by (cases "apply_interest_to_all (heap e)") (auto simp: run_round_def)
  obtain lr s3 where pl: "process_all_loans s2 = (lr, s3)" by (cases "process_all_loans s2")
  obtain ch cr where gc: "get_challenge (challenge_round e) = (ch, cr)"
    by (cases "get_challenge (challenge_round e)")
  define responses where
    "responses = map (\<lambda>n. (n, api n)) (filter (\<lambda>n. \<not> eliminated (objs s3 n)) roster)"
  define judged where
    "judged = (if length responses \<ge> 2
               then (case judge_responses s3 reply responses of
                       Inl err \<Rightarrow> Inl err
                     | Inr (Some best, Some worst) \<Rightarrow>
                          if best \<noteq> [] \<and> worst \<noteq> []
                          then apply_performance_changes s3 best worst
                          else Inr s3
                     | Inr other \<Rightarrow> Inr s3)
               else Inr s3)"
  have unf: "run_round e api reply =
     (case judged of
        Inl err \<Rightarrow> Inl err
      | Inr s4 \<Rightarrow>
          Inr (e\<lparr>current_round := current_round e + 1,
                 heap := end_of_round (current_round e + 1) s4,
                 challenge_round := cr\<rparr>))"
    unfolding judged_def responses_def
    by (simp add: run_round_def Let_def nokey int pl gc)
  from assms obtain s4 where j: "judged = Inr s4"
    and e': "heap e' = end_of_round (current_round e + 1) s4"
    unfolding unf by (cases judged) auto
  have "s4 = s3 \<or> (\<exists>b w. apply_performance_changes s3 b w = Inr s4)"
  proof (cases "length responses \<ge> 2")
    case True
    with j show ?thesis unfolding judged_def by (simp only: if_True) (rule judged_cases)
  next
    case False
    with j show ?thesis by (simp add: judged_def)
  qed
  with int e' pl show ?thesis by auto
qed

lemma run_round_nonneg:
  assumes "run_round e api reply = Inr e'" and "\<forall>n. 0 \<le> token_bank (objs (heap e) n)"
  shows "\<forall>n. 0 \<le> token_bank (objs (heap e') n)"
proof -
  from run_round_heap [OF assms(1)] obtain results s2 s4 where
    int: "apply_interest_to_all (heap e) = Inr (results, s2)" and
    e': "heap e' = end_of_round (current_round e + 1) s4" and
    s4: "s4 = snd (process_all_loans s2) \<or>
         (\<exists>b w. apply_performance_changes (snd (process_all_loans s2)) b w = Inr s4)"
    by blast
  have "\<forall>n. 0 \<le> token_bank (objs s2 n)"
    using apply_interest_to_all_nonneg [OF int assms(2)] .
  then have s3: "\<forall>n. 0 \<le> token_bank (objs (snd (process_all_loans s2)) n)"
    by (rule process_all_loans_nonneg)
  from s4 have "\<forall>n. 0 \<le> token_bank (objs s4 n)"
    using s3 apply_performance_changes_nonneg by blast
  then show ?thesis unfolding e' by (rule end_of_round_nonneg)
qed

subsection \<open>Rounds of the V4 engine\<close>

lemma boost_self_nonneg:
  "0 \<le> token_bank p \<Longrightarrow> 0 \<le> token_bank (snd (boost_self p))"
  by (simp add: boost_self_def spend_tokens_def)

lemma donate_to_nonneg:
  assumes "\<forall>n. 0 \<le> token_bank (objs s n)" and "0 \<le> amount"
  shows "\<forall>n. 0 \<le> token_bank (objs (snd (donate_to s self target amount)) n)"
  using assms by (auto simp: donate_to_def spend_tokens_def earn_tokens_def Let_def)

lemma offer_loan_nonneg:
  assumes "\<forall>n. 0 \<le> token_bank (objs s n)" and "0 \<le> amount"
  shows "\<forall>n. 0 \<le> token_bank (objs (snd (offer_loan s self target amount rate dur)) n)"
  using assms by (auto simp: offer_loan_def Let_def)

lemma parse_cooperation_actions_nonneg:
  assumes "parse_cooperation_actions s participant strategy = Inr s'"
    and "\<forall>n. 0 \<le> token_bank (objs s n)"
  shows "\<forall>n. 0 \<le> token_bank (objs s' n)"
proof -
  define s1 where "s1 = (if self_rescue strategy
                then upd_obj participant (\<lambda>p. snd (boost_self p)) s
                else s)"
  have s1: "\<forall>n. 0 \<le> token_bank (objs s1 n)"
    using assms(2) boost_self_nonneg [of "objs s participant"] by (simp add: s1_def)
  have unf: "parse_cooperation_actions s participant strategy =
     (case donation strategy of
           NoDonation \<Rightarrow> Inr s1
         | DonationTooLong \<Rightarrow> Inl ValueError
         | Donation amount target_name \<Rightarrow>
             if target_name \<in> set roster
             then (if \<not> eliminated (objs s1 target_name)
                   then Inr (snd (donate_to s1 participant target_name (int amount)))
                   else Inr s1)
             else Inr s1)"
    unfolding parse_cooperation_actions_def Let_def s1_def by (rule refl)
  show ?thesis
  proof (cases "donation strategy")
    case NoDonation
    with assms(1) s1 show ?thesis by (simp add: unf)
  next
    case DonationTooLong
    with assms(1) show ?thesis by (simp add: unf)
  next
    case (Donation amount target_name)
    have d: "\<forall>n. 0 \<le> token_bank (objs (snd (donate_to s1 participant target_name (int amount))) n)"
      by (rule donate_to_nonneg [OF s1]) simp
    from assms(1) Donation have "s' = s1 \<or> s' = snd (donate_to s1 participant target_name (int amount))"
      by (auto simp: unf split: if_splits)
    with s1 d show ?thesis by blast
  qed
qed

lemma collect_step_nonneg:
  assumes "case acc of Inl err \<Rightarrow> True | Inr (rs, t) \<Rightarrow> \<forall>n. 0 \<le> token_bank (objs t n)"
  shows "case collect_step api n acc of
           Inl err \<Rightarrow> True
         | Inr (rs, t) \<Rightarrow> \<forall>n. 0 \<le> token_bank (objs t n)"
proof (cases acc)
  case (Inl err)
  then show ?thesis by (simp add: collect_step_def)
next
  case (Inr pair)
  obtain rs t where pair: "pair = (rs, t)" by (cases pair)
  from assms Inr pair have t: "\<forall>n. 0 \<le> token_bank (objs t n)" by simp
  obtain response st where a: "api n = (response, st)" by (cases "api n")
  show ?thesis
  proof (cases "eliminated (objs t n)")
    case True
    with Inr pair t show ?thesis by (simp add: collect_step_def)
  next
    case alive: False
    show ?thesis
    proof (cases "get_config (objs t n)")
      case (Inl err)
      with Inr pair alive show ?thesis by (simp add: collect_step_def)
    next
      case cfg: (Inr c)
      show ?thesis
      proof (cases st)
        case None
        with Inr pair alive cfg a t show ?thesis by (simp add: collect_step_def)
      next
        case (Some strategy)
        show ?thesis
        proof (cases "parse_cooperation_actions t n strategy")
          case (Inl err)
          with Inr pair alive cfg a Some show ?thesis by (simp add: collect_step_def)
        next
          case p: (Inr t')
          from parse_cooperation_actions_nonneg [OF p t]
          have "\<forall>n. 0 \<le> token_bank (objs t' n)" .
          with Inr pair alive cfg a Some p show ?thesis by (simp add: collect_step_def)
        qed
      qed
    qed
  qed
qed

lemma collect_responses_nonneg:
  assumes "collect_responses api s = Inr (responses, s')"
    and "\<forall>n. 0 \<le> token_bank (objs s n)"
  shows "\<forall>n. 0 \<le> token_bank (objs s' n)"
proof -
  let ?P = "\<lambda>acc :: collect_acc.
              case acc of
                Inl err \<Rightarrow> True
              | Inr (rs, t) \<Rightarrow> \<forall>n. 0 \<le> token_bank (objs t n)"
  have "?P (collect_responses api s)"
    unfolding collect_responses_def
  proof (rule fold_invariant [where P = ?P])
    show "?P (Inr ([], s))" using assms(2) by simp
  next
    fix n and acc :: collect_acc
    assume "?P acc"
    then show "?P (collect_step api n acc)" by (rule collect_step_nonneg)
  qed
  with assms(1) show ?thesis by simp
qed

lemma apply_performance_changes_V4_nonneg:
  assumes "apply_performance_changes_V4 s b w = Inr s'" and "\<forall>n. 0 \<le> token_bank (objs s n)"
  shows "\<forall>n. 0 \<le> token_bank (objs s' n)"
  using assms
  by (auto simp: apply_performance_changes_V4_def Let_def earn_tokens_def split: if_splits)

lemma run_round_V4_heap:
  assumes "run_round_V4 e api reply = Inr e'"
  shows "\<exists>results s2 responses s3 s4.
           apply_interest_to_all (heap e) = Inr (results, s2) \<and>
           collect_responses api s2 = Inr (responses, s3) \<and>
           heap e' = end_of_round (current_round e + 1) s4 \<and>
           (s4 = s3 \<or> (\<exists>b w. apply_performance_changes_V4 s3 b w = Inr s4))"
proof -
  have nokey: "\<not> list_ex (\<lambda>n. get_config (objs (heap e) n) = Inl KeyError) roster"
    using assms by (cases "list_ex (\<lambda>n. get_config (objs (heap e) n) = Inl KeyError) roster")
                   (simp_all add: run_round_V4_def)
  obtain results s2 where int: "apply_interest_to_all (heap e) = Inr (results, s2)"
    using assms nokey
    by (cases "apply_interest_to_all (heap e)") (auto simp: run_round_V4_def)
  obtain ch cr where gc: "get_challenge (challenge_round e) = (ch, cr)"
    by (cases "get_challenge (challenge_round e)")
  obtain responses s3 where col: "collect_responses api s2 = Inr (responses, s3)"
    using assms nokey int gc
    by (cases "collect_responses api s2") (auto simp: run_round_V4_def Let_def)
  define judged where
    "judged = (if length responses \<ge> 2
               then (case judge_responses_V4 s3 reply responses of
                       Inl err \<Rightarrow> Inl err
                     | Inr (Some best, Some worst) \<Rightarrow>
                          if best \<noteq> [] \<and> worst \<noteq> []
                          then apply_performance_changes_V4 s3 best worst
                          else Inr s3
                     | Inr other \<Rightarrow> Inr s3)
               else Inr s3)"
  have unf: "run_round_V4 e api reply =
     (case judged of
        Inl err \<Rightarrow> Inl err
      | Inr s4 \<Rightarrow>
          Inr (e\<lparr>current_round := current_round e + 1,
                 heap := end_of_round (current_round e + 1) s4,
                 challenge_round := cr\<rparr>))"
    unfolding judged_def
    by (simp add: run_round_V4_def Let_def nokey int col gc)
  from assms obtain s4 where j: "judged = Inr s4"
    and e': "heap e' = end_of_round (current_round e + 1) s4"
    unfolding unf by (cases judged) auto
  have "s4 = s3 \<or> (\<exists>b w. apply_performance_changes_V4 s3 b w = Inr s4)"
  proof (cases "length responses \<ge> 2")
    case True
    with j show ?thesis unfolding judged_def by (simp only: if_True) (rule judged_cases)
  next
    case False
    with j show ?thesis by (simp add: judged_def)
  qed
  with int col e' show ?thesis by blast
qed

lemma run_round_V4_nonneg:
  assumes "run_round_V4 e api reply = Inr e'" and "\<forall>n. 0 \<le> token_bank (objs (heap e) n)"
  shows "\<forall>n. 0 \<le> token_bank (objs (heap e') n)"
proof -
  from run_round_V4_heap [OF assms(1)] obtain results s2 responses s3 s4 where
    int: "apply_interest_to_all (heap e) = Inr (results, s2)" and
    col: "collect_responses api s2 = Inr (responses, s3)" and
    e': "heap e' = end_of_round (current_round e + 1) s4" and
    s4: "s4 = s3 \<or> (\<exists>b w. apply_performance_changes_V4 s3 b w = Inr s4)"
    by blast
  have "\<forall>n. 0 \<le> token_bank (objs s2 n)"
    using apply_interest_to_all_nonneg [OF int assms(2)] .
  then have s3: "\<forall>n. 0 \<le> token_bank (objs s3 n)"
    by (rule collect_responses_nonneg [OF col])
  from s4 have "\<forall>n. 0 \<le> token_bank (objs s4 n)"
    using s3 apply_performance_changes_V4_nonneg by blast
  then show ?thesis unfolding e' by (rule end_of_round_nonneg)
qed

subsection \<open>Rounds that complete\<close>

text \<open>
  A round in which the judge call fails returns when every level is a key of
  \<^verbatim>\<open>PERFORMANCE_LEVELS\<close>, every balance is below \<open>2 ^ 53\<close> and, in V4, no
  announced donation has an amount that \<^verbatim>\<open>int\<close> refuses.
\<close>

lemma process_loan_payments_level:
  "level (objs (snd (process_loan_payments s self)) m) = level (objs s m)"
proof (cases "m = self")
  case True
  show ?thesis unfolding True by (subst process_loan_payments_self) simp
next
  case False
  then show ?thesis by (simp add: process_loan_payments_other)
qed

lemma process_all_loans_level:
  "level (objs (snd (process_all_loans s)) m) = level (objs s m)"
proof -
  let ?P = "\<lambda>acc :: loan_event list \<times> store. level (objs (snd acc) m) = level (objs s m)"
  have "?P (fold (\<lambda>n (all_results, s).
             if \<not> eliminated (objs s n)
             then (let (results, s') = process_loan_payments s n
                   in (all_results @ results, s'))
             else (all_results, s))
          roster ([], s))"
  proof (rule fold_invariant [where P = ?P])
    fix x and a :: "loan_event list \<times> store"
    assume "?P a"
    then show "?P ((\<lambda>n (all_results, s).
             if \<not> eliminated (objs s n)
             then (let (results, s') = process_loan_payments s n
                   in (all_results @ results, s'))
             else (all_results, s)) x a)"
      by (simp add: split_beta process_loan_payments_level)
  next
    show "?P ([], s)" by simp
  qed
  then show ?thesis by (simp add: process_all_loans_def)
qed

lemma hd_valid_in:
  assumes "set (map fst responses) \<subseteq> A" and "filter P responses \<noteq> []"
  shows "hd (map fst (filter P responses)) \<in> A" "last (map fst (filter P responses)) \<in> A"
proof -
  let ?names = "map fst (filter P responses)"
  from assms(2) have ne: "?names \<noteq> []" by simp
  have sub: "set ?names \<subseteq> A" using assms(1) by auto
  from ne sub show "hd ?names \<in> A" using hd_in_set by blast
  from ne sub show "last ?names \<in> A" using last_in_set by blast
qed

lemma first_valid_in:
  assumes "set (map fst responses) \<subseteq> A"
    and "(case filter P responses of [] \<Rightarrow> None | (n, resp) # rest \<Rightarrow> Some n) = Some x"
  shows "x \<in> A"
proof (cases "filter P responses")
  case Nil
  with assms(2) show ?thesis by simp
next
  case (Cons a rest)
  obtain n resp where a: "a = (n, resp)" by (cases a)
  from Cons a assms(2) have "x = n" by simp
  moreover have "(n, resp) \<in> set (filter P responses)" unfolding Cons a by simp
  then have "n \<in> set (map fst responses)" by force
  ultimately show ?thesis using assms(1) by blast
qed

lemma judge_responses_raises:
  assumes "set (map fst responses) \<subseteq> set roster"
  shows "\<exists>b w. judge_responses s JudgeRaises responses = Inr (b, w) \<and>
           (\<forall>x. b = Some x \<longrightarrow> x \<in> set roster) \<and> (\<forall>x. w = Some x \<longrightarrow> x \<in> set roster)"
proof -
  let ?valid = "filter (\<lambda>(n, resp). \<not> eliminated (objs s n)) responses"
  have all: "list_all (\<lambda>(n, resp). n \<in> set roster) responses"
    using assms by (simp add: responders_in_roster)
  show ?thesis
  proof (cases "length ?valid < 2")
    case True
    then have "judge_responses s JudgeRaises responses =
        Inr ((case ?valid of [] \<Rightarrow> None | (n, resp) # rest \<Rightarrow> Some n), None)"
      using all by (simp add: judge_responses_def)
    with first_valid_in [OF assms] show ?thesis by blast
  next
    case False
    then have j: "judge_responses s JudgeRaises responses =
        Inr (Some (hd (map fst ?valid)), Some (last (map fst ?valid)))"
      using all by (simp add: judge_responses_def Let_def)
    from False have "?valid \<noteq> []" by auto
    from hd_valid_in [OF assms this] j show ?thesis by simp
  qed
qed

lemma judge_responses_V4_raises:
  assumes "set (map fst responses) \<subseteq> set roster"
  shows "\<exists>b w. judge_responses_V4 s JudgeRaises responses = Inr (b, w) \<and>
           (\<forall>x. b = Some x \<longrightarrow> x \<in> set roster) \<and> (\<forall>x. w = Some x \<longrightarrow> x \<in> set roster)"
proof -
  let ?valid = "filter (\<lambda>(n, resp). \<not> eliminated (objs s n)) responses"
  have all: "list_all (\<lambda>(n, resp). n \<in> set roster) responses"
    using assms by (simp add: responders_in_roster)
  show ?thesis
  proof (cases "length ?valid < 2")
    case True
    then have "judge_responses_V4 s JudgeRaises responses =
        Inr ((case ?valid of [] \<Rightarrow> None | (n, resp) # rest \<Rightarrow> Some n), None)"
      using all by (simp add: judge_responses_V4_def)
    with first_valid_in [OF assms] show ?thesis by blast
  next
    case False
    then have j: "judge_responses_V4 s JudgeRaises responses =
        Inr (Some (hd (map fst ?valid)), Some (last (map fst ?valid)))"
      using all by (simp add: judge_responses_V4_def Let_def)
    from False have "?valid \<noteq> []" by auto
    from hd_valid_in [OF assms this] j show ?thesis by simp
  qed
qed

lemma judged_total:
  assumes "jr = Inr (b, w)"
    and "\<And>x y. b = Some x \<Longrightarrow> w = Some y \<Longrightarrow> \<exists>s4. f x y = Inr s4"
  shows "\<exists>s4. (case jr of
              Inl err \<Rightarrow> Inl err
            | Inr (Some best, Some worst) \<Rightarrow>
                 if best \<noteq> [] \<and> worst \<noteq> [] then f best worst else Inr s3
            | Inr other \<Rightarrow> Inr s3) = Inr s4"
proof (cases b)
  case None
  with assms(1) show ?thesis by simp
next
  case bs: (Some x)
  show ?thesis
  proof (cases w)
    case None
    with assms(1) bs show ?thesis by simp
  next
    case (Some y)
    from assms(2) [OF bs Some] obtain s4 where "f x y = Inr s4" by blast
    with assms(1) bs Some show ?thesis by simp
  qed
qed

lemma get_config_no_KeyError:
  assumes "\<forall>n \<in> set roster. -5 \<le> level (objs s n) \<and> level (objs s n) \<le> 3"
  shows "\<not> list_ex (\<lambda>n. get_config (objs s n) = Inl KeyError) roster"
proof -
  have "\<forall>n \<in> set roster. get_config (objs s n) \<noteq> Inl KeyError"
  proof
    fix n assume "n \<in> set roster"
    with assms get_config_defined [of "objs s n"]
    obtain c where "get_config (objs s n) = Inr c" by blast
    then show "get_config (objs s n) \<noteq> Inl KeyError" by simp
  qed
  then show ?thesis by (simp add: list_ex_iff)
qed

lemma run_round_completes:
  assumes lv: "\<forall>n \<in> set roster. -5 \<le> level (objs (heap e) n) \<and> level (objs (heap e) n) \<le> 3"
    and bk: "\<forall>n \<in> set roster. token_bank (objs (heap e) n) < 2 ^ 53"
  shows "\<exists>e'. run_round e api JudgeRaises = Inr e'"
proof -
  have nokey: "\<not> list_ex (\<lambda>n. get_config (objs (heap e) n) = Inl KeyError) roster"
    using lv by (rule get_config_no_KeyError)
  from apply_interest_to_all_total [OF bk] obtain results s2 where
    int: "apply_interest_to_all (heap e) = Inr (results, s2)" by (metis surj_pair)
  obtain lr s3 where pl: "process_all_loans s2 = (lr, s3)" by (cases "process_all_loans s2")
  obtain ch cr where gc: "get_challenge (challenge_round e) = (ch, cr)"
    by (cases "get_challenge (challenge_round e)")
  define responses where
    "responses = map (\<lambda>n. (n, api n)) (filter (\<lambda>n. \<not> eliminated (objs s3 n)) roster)"
  define judged where
    "judged = (if length responses \<ge> 2
               then (case judge_responses s3 JudgeRaises responses of
                       Inl err \<Rightarrow> Inl err
                     | Inr (Some best, Some worst) \<Rightarrow>
                          if best \<noteq> [] \<and> worst \<noteq> []
                          then apply_performance_changes s3 best worst
                          else Inr s3
                     | Inr other \<Rightarrow> Inr s3)
               else Inr s3)"
  have unf: "run_round e api JudgeRaises =
     (case judged of
        Inl err \<Rightarrow> Inl err
      | Inr s4 \<Rightarrow>
          Inr (e\<lparr>current_round := current_round e + 1,
                 heap := end_of_round (current_round e + 1) s4,
                 challenge_round := cr\<rparr>))"
    unfolding judged_def responses_def
    by (simp add: run_round_def Let_def nokey int pl gc)
  have s3: "s3 = snd (process_all_loans s2)" by (simp add: pl)
  have lv3: "\<And>n. level (objs s3 n) = level (objs (heap e) n)"
    using apply_interest_to_all_frame [OF int] by (simp add: s3 process_all_loans_level)
  have names: "set (map fst responses) \<subseteq> set roster"
    by (auto simp: responses_def)
  have "\<exists>s4. judged = Inr s4"
  proof (cases "length responses \<ge> 2")
    case False
    then show ?thesis by (simp add: judged_def)
  next
    case True
    from judge_responses_raises [OF names, of s3] obtain b w where
      jr: "judge_responses s3 JudgeRaises responses = Inr (b, w)" and
      mem: "\<forall>x. b = Some x \<longrightarrow> x \<in> set roster" "\<forall>x. w = Some x \<longrightarrow> x \<in> set roster"
      by blast
    have "\<And>x y. b = Some x \<Longrightarrow> w = Some y \<Longrightarrow> \<exists>s4. apply_performance_changes s3 x y = Inr s4"
    proof -
      fix x y assume "b = Some x" "w = Some y"
      with mem have xy: "x \<in> set roster" "y \<in> set roster" by simp_all
      with lv have "-6 \<le> level (objs s3 x)" "level (objs s3 y) \<le> 4"
        by (simp_all add: lv3) force+
      from apply_performance_changes_total [OF xy this]
      show "\<exists>s4. apply_performance_changes s3 x y = Inr s4" .
    qed
    from judged_total [where f = "apply_performance_changes s3" and ?s3.0 = s3, OF jr this] True
    show ?thesis by (simp add: judged_def)
  qed
  then obtain s4 where "judged = Inr s4" by blast
  then show ?thesis by (simp add: unf)
qed

lemma donate_to_level:
  "level (objs (snd (donate_to s self target amount)) n) = level (objs s n)"
  by (auto simp: donate_to_def spend_tokens_def earn_tokens_def Let_def)

lemma parse_cooperation_actions_total:
  assumes "donation strategy \<noteq> DonationTooLong"
  shows "\<exists>s'. parse_cooperation_actions s k strategy = Inr s' \<and>
           (\<forall>n. n \<noteq> k \<longrightarrow> level (objs s' n) = level (objs s n))"
proof -
  define s1 where "s1 = (if self_rescue strategy
                then upd_obj k (\<lambda>p. snd (boost_self p)) s
                else s)"
  have s1: "\<forall>n. n \<noteq> k \<longrightarrow> level (objs s1 n) = level (objs s n)"
    by (simp add: s1_def)
  have unf: "parse_cooperation_actions s k strategy =
     (case donation strategy of
           NoDonation \<Rightarrow> Inr s1
         | DonationTooLong \<Rightarrow> Inl ValueError
         | Donation amount target_name \<Rightarrow>
             if target_name \<in> set roster
             then (if \<not> eliminated (objs s1 target_name)
                   then Inr (snd (donate_to s1 k target_name (int amount)))
                   else Inr s1)
             else Inr s1)"
    unfolding parse_cooperation_actions_def Let_def s1_def by (rule refl)
  show ?thesis
  proof (cases "donation strategy")
    case NoDonation
    with s1 show ?thesis by (simp add: unf)
  next
    case DonationTooLong
    with assms show ?thesis by simp
  next
    case (Donation amount target_name)
    with s1 show ?thesis by (simp add: unf donate_to_level)
  qed
qed

lemma collect_fold_total:
  assumes "distinct ks"
    and "\<forall>n \<in> set ks. -5 \<le> level (objs s n) \<and> level (objs s n) \<le> 3"
    and "\<forall>n c. snd (api n) = Some c \<longrightarrow> donation c \<noteq> DonationTooLong"
  shows "\<exists>rs' s'. fold (collect_step api) ks (Inr (rs, s)) = Inr (rs', s') \<and>
           set (map fst rs') \<subseteq> set (map fst rs) \<union> set ks"
  using assms(1,2)
proof (induction ks arbitrary: rs s)
  case Nil
  then show ?case by simp
next
  case (Cons k ks)
  from Cons.prems have d: "distinct ks" and notin: "k \<notin> set ks"
    and lk: "-5 \<le> level (objs s k)" "level (objs s k) \<le> 3"
    and rest: "\<forall>n \<in> set ks. -5 \<le> level (objs s n) \<and> level (objs s n) \<le> 3" by simp_all
  obtain response st where a: "api k = (response, st)" by (cases "api k")
  from get_config_defined [OF lk] obtain c where cfg: "get_config (objs s k) = Inr c" by blast
  show ?case
  proof (cases "eliminated (objs s k)")
    case True
    then have step: "collect_step api k (Inr (rs, s)) = Inr (rs, s)"
      by (simp add: collect_step_def)
    from Cons.IH [OF d rest, of rs] obtain rs' s' where
      "fold (collect_step api) ks (Inr (rs, s)) = Inr (rs', s')"
      "set (map fst rs') \<subseteq> set (map fst rs) \<union> set ks" by blast
    with step show ?thesis by auto
  next
    case alive: False
    show ?thesis
    proof (cases st)
      case None
      with alive cfg a have step:
        "collect_step api k (Inr (rs, s)) = Inr (rs @ [(k, response)], s)"
        by (simp add: collect_step_def)
      from Cons.IH [OF d rest, of "rs @ [(k, response)]"] obtain rs' s' where
        "fold (collect_step api) ks (Inr (rs @ [(k, response)], s)) = Inr (rs', s')"
        "set (map fst rs') \<subseteq> set (map fst (rs @ [(k, response)])) \<union> set ks" by blast
      with step show ?thesis by auto
    next
      case (Some strategy)
      with a assms(3) have "donation strategy \<noteq> DonationTooLong" by (metis snd_conv)
      from parse_cooperation_actions_total [OF this, of s k] obtain t where
        p: "parse_cooperation_actions s k strategy = Inr t" and
        lt: "\<forall>n. n \<noteq> k \<longrightarrow> level (objs t n) = level (objs s n)" by blast
      from alive cfg a Some p have step:
        "collect_step api k (Inr (rs, s)) = Inr (rs @ [(k, response)], t)"
        by (simp add: collect_step_def)
      have rest': "\<forall>n \<in> set ks. -5 \<le> level (objs t n) \<and> level (objs t n) \<le> 3"
        using rest lt notin by auto
      from Cons.IH [OF d rest', of "rs @ [(k, response)]"] obtain rs' s' where
        "fold (collect_step api) ks (Inr (rs @ [(k, response)], t)) = Inr (rs', s')"
        "set (map fst rs') \<subseteq> set (map fst (rs @ [(k, response)])) \<union> set ks" by blast
      with step show ?thesis by auto
    qed
  qed
qed

lemma apply_performance_changes_V4_total:
  "b \<in> set roster \<Longrightarrow> w \<in> set roster \<Longrightarrow> \<exists>s'. apply_performance_changes_V4 s b w = Inr s'"
  by (simp add: apply_performance_changes_V4_def Let_def)

lemma run_round_V4_completes:
  assumes lv: "\<forall>n \<in> set roster. -5 \<le> level (objs (heap e) n) \<and> level (objs (heap e) n) \<le> 3"
    and bk: "\<forall>n \<in> set roster. token_bank (objs (heap e) n) < 2 ^ 53"
    and ok: "\<forall>n c. snd (api n) = Some c \<longrightarrow> donation c \<noteq> DonationTooLong"
  shows "\<exists>e'. run_round_V4 e api JudgeRaises = Inr e'"
proof -
  have nokey: "\<not> list_ex (\<lambda>n. get_config (objs (heap e) n) = Inl KeyError) roster"
    using lv by (rule get_config_no_KeyError)
  from apply_interest_to_all_total [OF bk] obtain results s2 where
    int: "apply_interest_to_all (heap e) = Inr (results, s2)" by (metis surj_pair)
  obtain ch cr where gc: "get_challenge (challenge_round e) = (ch, cr)"
    by (cases "get_challenge (challenge_round e)")
  have lv2: "\<forall>n \<in> set roster. -5 \<le> level (objs s2 n) \<and> level (objs s2 n) \<le> 3"
    using lv apply_interest_to_all_frame [OF int] by simp
  from collect_fold_total [OF distinct_roster lv2 ok, of "[]"] obtain responses s3 where
    col: "collect_responses api s2 = Inr (responses, s3)" and
    names: "set (map fst responses) \<subseteq> set roster"
    by (auto simp: collect_responses_def)
  define judged where
    "judged = (if length responses \<ge> 2
               then (case judge_responses_V4 s3 JudgeRaises responses of
                       Inl err \<Rightarrow> Inl err
                     | Inr (Some best, Some worst) \<Rightarrow>
                          if best \<noteq> [] \<and> worst \<noteq> []
                          then apply_performance_changes_V4 s3 best worst
                          else Inr s3
                     | Inr other \<Rightarrow> Inr s3)
               else Inr s3)"
  have unf: "run_round_V4 e api JudgeRaises =
     (case judged of
        Inl err \<Rightarrow> Inl err
      | Inr s4 \<Rightarrow>
          Inr (e\<lparr>current_round := current_round e + 1,
                 heap := end_of_round (current_round e + 1) s4,
                 challenge_round := cr\<rparr>))"
    unfolding judged_def
    by (simp add: run_round_V4_def Let_def nokey int col gc)
  have "\<exists>s4. judged = Inr s4"
  proof (cases "length responses \<ge> 2")
    case False
    then show ?thesis by (simp add: judged_def)
  next
    case True
    from judge_responses_V4_raises [OF names, of s3] obtain b w where
      jr: "judge_responses_V4 s3 JudgeRaises responses = Inr (b, w)" and
      mem: "\<forall>x. b = Some x \<longrightarrow> x \<in> set roster" "\<forall>x. w = Some x \<longrightarrow> x \<in> set roster"
      by blast
    have "\<And>x y. b = Some x \<Longrightarrow> w = Some y \<Longrightarrow> \<exists>s4. apply_performance_changes_V4 s3 x y = Inr s4"
      using mem apply_performance_changes_V4_total by blast
    from judged_total [where f = "apply_performance_changes_V4 s3" and ?s3.0 = s3, OF jr this] True
    show ?thesis by (simp add: judged_def)
  qed
  then obtain s4 where "judged = Inr s4" by blast
  then show ?thesis by (simp add: unf)
qed

subsection \<open>The invariant\<close>

text \<open>
  Claim C1, as the code has it. In the token economy of V3, which V4 shares, every
  debit is guarded by an affordability check: \<^verbatim>\<open>spend_tokens\<close>,
  \<^verbatim>\<open>boost_self\<close>, the repayments of \<^verbatim>\<open>process_loan_payments\<close>, and
  \<^verbatim>\<open>donate_to\<close> and \<^verbatim>\<open>offer_loan\<close> for an amount that is not negative leave
  every balance non-negative when every balance was. A round of the V3 engine, and a
  round of the V4 engine with the self-rescues and donations that its participants
  announce, that starts with non-negative balances and completes ends with
  non-negative balances. (\<^verbatim>\<open>run_challenge_round\<close> of the V5 engine debits the
  cost of each call without a check; a V5 balance can become negative.)
\<close>

theorem balance_never_negative:
  "(0 \<le> token_bank p \<longrightarrow>
      0 \<le> token_bank (snd (spend_tokens p amount)) \<and> 0 \<le> token_bank (snd (boost_self p))) \<and>
   ((\<forall>n. 0 \<le> token_bank (objs s n)) \<longrightarrow>
      (\<forall>n. 0 \<le> token_bank (objs (snd (process_loan_payments s self)) n))) \<and>
   ((\<forall>n. 0 \<le> token_bank (objs s n)) \<and> 0 \<le> amount \<longrightarrow>
      (\<forall>n. 0 \<le> token_bank (objs (snd (donate_to s self target amount)) n)) \<and>
      (\<forall>n. 0 \<le> token_bank (objs (snd (offer_loan s self target amount rate dur)) n))) \<and>
   ((\<forall>n. 0 \<le> token_bank (objs (heap e) n)) \<and> run_round e api reply = Inr e' \<longrightarrow>
      (\<forall>n. 0 \<le> token_bank (objs (heap e') n))) \<and>
   ((\<forall>n. 0 \<le> token_bank (objs (heap eng) n)) \<and> run_round_V4 eng coop verdict = Inr eng' \<longrightarrow>
      (\<forall>n. 0 \<le> token_bank (objs (heap eng') n)))"
proof -
  have ops: "0 \<le> token_bank p \<longrightarrow>
      0 \<le> token_bank (snd (spend_tokens p amount)) \<and> 0 \<le> token_bank (snd (boost_self p))"
    by (simp add: spend_tokens_def boost_self_def)
  have loans: "(\<forall>n. 0 \<le> token_bank (objs s n)) \<longrightarrow>
      (\<forall>n. 0 \<le> token_bank (objs (snd (process_loan_payments s self)) n))"
    using process_loan_payments_nonneg [of s self] by blast
  have transfers: "(\<forall>n. 0 \<le> token_bank (objs s n)) \<and> 0 \<le> amount \<longrightarrow>
      (\<forall>n. 0 \<le> token_bank (objs (snd (donate_to s self target amount)) n)) \<and>
      (\<forall>n. 0 \<le> token_bank (objs (snd (offer_loan s self target amount rate dur)) n))"
    using donate_to_nonneg [of s amount self target] offer_loan_nonneg [of s amount self target rate dur]
    by blast
  have v3: "(\<forall>n. 0 \<le> token_bank (objs (heap e) n)) \<and> run_round e api reply = Inr e' \<longrightarrow>
      (\<forall>n. 0 \<le> token_bank (objs (heap e') n))"
    using run_round_nonneg [of e api reply e'] by blast
  have v4: "(\<forall>n. 0 \<le> token_bank (objs (heap eng) n)) \<and> run_round_V4 eng coop verdict = Inr eng' \<longrightarrow>
      (\<forall>n. 0 \<le> token_bank (objs (heap eng') n))"
    using run_round_V4_nonneg [of eng coop verdict eng'] by blast
  show ?thesis
    apply (intro conjI)
        apply (rule ops)
       apply (rule loans)
      apply (rule transfers)
     apply (rule v3)
    apply (rule v4)
    done
qed

theorem balance_never_negative_counterexample:
  "run_challenge_round trio_V5 4 paid_api (RankingParsed [''Grok'', ''Claude'']) (const_draw 0) =
     Inr ([''Grok'', ''Claude''],
          trio_V5\<lparr>ais :=
            [(''Claude'', (new_AI ''Claude'' ''anthropic'' False False)
                 \<lparr>ai_token_bank := -400, ai_level := -1, alive := False,
                   eliminated_round := Some 4\<rparr>),
             (''Grok'', (new_AI ''Grok'' ''xai'' True True)
                 \<lparr>ai_token_bank := 4500, ai_level := 1, reputation_score := 2\<rparr>),
             (''DeepSeek'', (new_AI ''DeepSeek'' ''deepseek'' False False)
                  \<lparr>ai_token_bank := 0, alive := False, eliminated_round := Some 3\<rparr>)]\<rparr>)"
  by (simp add: run_challenge_round_def judge_responses_V5_def apply_round_results_def Let_def
        trio_V5_def new_AI_def paid_api_def group_bonus_V5_def check_eliminations_V5_def)

theorem balance_never_negative_witness:
  "0 \<le> token_bank (snd (spend_tokens (new_Participant ''Grok'') 400)) \<and>
   0 \<le> token_bank (snd (boost_self (new_Participant ''Grok''))) \<and>
   0 \<le> token_bank (objs (snd (process_loan_payments loan_state ''Grok'')) ''Grok'') \<and>
   0 \<le> token_bank (objs (snd (donate_to (heap new_EngineV3) ''Claude'' ''Grok'' 200)) ''Claude'') \<and>
   0 \<le> token_bank (objs (snd (offer_loan (heap new_EngineV3) ''Claude'' ''Grok'' 200 (1 / 5) 2)) ''Claude'') \<and>
   (case run_round new_EngineV3 fixed_api JudgeRaises of
      Inl err \<Rightarrow> False
    | Inr e' \<Rightarrow> 0 \<le> token_bank (objs (heap e') ''Grok'')) \<and>
   (case run_round_V4 new_EngineV3 coop_api JudgeRaises of
      Inl err \<Rightarrow> False
    | Inr e' \<Rightarrow> 0 \<le> token_bank (objs (heap e') ''Claude''))"
proof -
  have p0: "0 \<le> token_bank (new_Participant ''Grok'')"
    by (simp add: new_Participant_def)
  have s0: "\<forall>n. 0 \<le> token_bank (objs (heap new_EngineV3) n)"
    by (simp add: new_EngineV3_def new_Participant_def)
  have s1: "\<forall>n. 0 \<le> token_bank (objs loan_state n)"
    by (simp add: loan_state_def offer_loan_def Let_def new_EngineV3_def new_Participant_def)
  have l0: "\<forall>n \<in> set roster. -5 \<le> level (objs (heap new_EngineV3) n) \<and>
              level (objs (heap new_EngineV3) n) \<le> 3"
    by (simp add: new_EngineV3_def new_Participant_def)
  have b0: "\<forall>n \<in> set roster. token_bank (objs (heap new_EngineV3) n) < 2 ^ 53"
    by (simp add: new_EngineV3_def new_Participant_def)
  have c0: "\<forall>n c. snd (coop_api n) = Some c \<longrightarrow> donation c \<noteq> DonationTooLong"
    by (auto simp: coop_api_def split: if_splits)
  have amt: "(0::int) \<le> 200" by simp
  from run_round_completes [OF l0 b0] obtain e3 where
    r3: "run_round new_EngineV3 fixed_api JudgeRaises = Inr e3" by blast
  from run_round_V4_completes [OF l0 b0 c0] obtain e4 where
    r4: "run_round_V4 new_EngineV3 coop_api JudgeRaises = Inr e4" by blast
  note a = balance_never_negative [where p = "new_Participant ''Grok''" and amount = 400
      and s = loan_state and self = "''Grok''" and target = "''Grok''" and rate = "1 / 5"
      and dur = 2 and e = new_EngineV3 and api = fixed_api and reply = JudgeRaises and e' = e3
      and eng = new_EngineV3 and coop = coop_api and verdict = JudgeRaises and eng' = e4]
  note b = balance_never_negative [where p = "new_Participant ''Grok''" and amount = 200
      and s = "heap new_EngineV3" and self = "''Claude''" and target = "''Grok''"
      and rate = "1 / 5" and dur = 2 and e = new_EngineV3 and api = fixed_api
      and reply = JudgeRaises and e' = e3
      and eng = new_EngineV3 and coop = coop_api and verdict = JudgeRaises and eng' = e4]
  from a b p0 s0 s1 amt r3 r4 show ?thesis by simp
qed

end
